theory Spec2Isabelle
  imports Main
begin

section \<open>Constants of symbol\_table.h and tree.h\<close>

abbreviation (input) STACK_SIZE :: int where "STACK_SIZE \<equiv> 100"
abbreviation (input) ST_SIZE :: int where "ST_SIZE \<equiv> 500"
abbreviation (input) ATTR_SIZE :: int where "ATTR_SIZE \<equiv> 2000"

abbreviation (input) STACK_OVERFLOW :: int where "STACK_OVERFLOW \<equiv> 100"
abbreviation (input) REDECLARATION :: int where "REDECLARATION \<equiv> 101"
abbreviation (input) ST_OVERFLOW :: int where "ST_OVERFLOW \<equiv> 102"
abbreviation (input) UNDECLARATION :: int where "UNDECLARATION \<equiv> 103"
abbreviation (input) ATTR_OVERFLOW :: int where "ATTR_OVERFLOW \<equiv> 104"
abbreviation (input) INDX_MIS :: int where "INDX_MIS \<equiv> 114"
abbreviation (input) FIELD_MIS :: int where "FIELD_MIS \<equiv> 115"
abbreviation (input) TYPE_MIS :: int where "TYPE_MIS \<equiv> 121"
abbreviation (input) MULTI_MAIN :: int where "MULTI_MAIN \<equiv> 124"

abbreviation (input) CONTINUE :: int where "CONTINUE \<equiv> 0"
abbreviation (input) ABORT :: int where "ABORT \<equiv> 1"

abbreviation (input) NAME_ATTR :: int where "NAME_ATTR \<equiv> 1"
abbreviation (input) NEST_ATTR :: int where "NEST_ATTR \<equiv> 2"
abbreviation (input) TREE_ATTR :: int where "TREE_ATTR \<equiv> 3"
abbreviation (input) PREDE_ATTR :: int where "PREDE_ATTR \<equiv> 4"
abbreviation (input) KIND_ATTR :: int where "KIND_ATTR \<equiv> 5"
abbreviation (input) TYPE_ATTR :: int where "TYPE_ATTR \<equiv> 6"
abbreviation (input) VALUE_ATTR :: int where "VALUE_ATTR \<equiv> 7"
abbreviation (input) OFFSET_ATTR :: int where "OFFSET_ATTR \<equiv> 8"
abbreviation (input) DIMEN_ATTR :: int where "DIMEN_ATTR \<equiv> 9"
abbreviation (input) ARGNUM_ATTR :: int where "ARGNUM_ATTR \<equiv> 10"

abbreviation (input) VAR :: int where "VAR \<equiv> 2"
abbreviation (input) FUNC :: int where "FUNC \<equiv> 4"
abbreviation (input) REF_ARG :: int where "REF_ARG \<equiv> 5"
abbreviation (input) VALUE_ARG :: int where "VALUE_ARG \<equiv> 6"
abbreviation (input) PROCE :: int where "PROCE \<equiv> 10"
abbreviation (input) CLASS :: int where "CLASS \<equiv> 11"
abbreviation (input) ARR :: int where "ARR \<equiv> 12"

abbreviation (input) DeclOp :: int where "DeclOp \<equiv> 102"
abbreviation (input) CommaOp :: int where "CommaOp \<equiv> 103"
abbreviation (input) TypeIdOp :: int where "TypeIdOp \<equiv> 105"
abbreviation (input) HeadOp :: int where "HeadOp \<equiv> 113"
abbreviation (input) RArgTypeOp :: int where "RArgTypeOp \<equiv> 114"
abbreviation (input) VArgTypeOp :: int where "VArgTypeOp \<equiv> 115"
abbreviation (input) SpecOp :: int where "SpecOp \<equiv> 119"
abbreviation (input) RoutineCallOp :: int where "RoutineCallOp \<equiv> 120"
abbreviation (input) AddOp :: int where "AddOp \<equiv> 123"
abbreviation (input) VarOp :: int where "VarOp \<equiv> 137"
abbreviation (input) SelectOp :: int where "SelectOp \<equiv> 138"
abbreviation (input) IndexOp :: int where "IndexOp \<equiv> 139"
abbreviation (input) FieldOp :: int where "FieldOp \<equiv> 140"
abbreviation (input) MethodOp :: int where "MethodOp \<equiv> 144"
abbreviation (input) ClassDefOp :: int where "ClassDefOp \<equiv> 145"

abbreviation (input) IDNode :: int where "IDNode \<equiv> 200"
abbreviation (input) NUMNode :: int where "NUMNode \<equiv> 201"
abbreviation (input) DUMMYNode :: int where "DUMMYNode \<equiv> 204"
abbreviation (input) EXPRNode :: int where "EXPRNode \<equiv> 205"
abbreviation (input) INTEGERTNode :: int where "INTEGERTNode \<equiv> 206"
abbreviation (input) STNode :: int where "STNode \<equiv> 209"

section \<open>The global state of the program\<close>

text \<open>
  C \<open>int\<close> values are modelled as \<open>int\<close>; every counter of the program is
  bounded by one of the three capacities, so no arithmetic of the modelled code wraps.
  Arrays are functions from the index; an access outside the declared bounds is written
  out as the outcome \<open>Undefined\<close> at each place where the code indexes with a value
  it has not checked. Pointers to tree nodes are integers as well (the code itself casts
  them to \<open>int\<close> to store them as attribute values); address 0 is the null pointer.
\<close>

record StackEntry =
  marker :: bool
  name :: int
  st_ptr :: int
  dummy :: bool
  used :: bool

record attr_type =
  attr_num :: int
  attr_val :: int
  next_attr :: int

record ILTree =
  NodeKind_f :: int
  NodeOpType :: int
  IntVal_f :: int
  LeftC :: int
  RightC :: int

text \<open>
  What the program writes to standard output, one entry per call that prints:
  \<open>Semantic_Error type id seq\<close> is the line printed by \<open>error_msg\<close>; the other
  entries are the \<open>printf\<close> calls of \<open>GetAttr\<close>, \<open>IntVal\<close>, \<open>SetLeftChild\<close>,
  \<open>SetRightChild\<close> and \<open>varop\<close>.
\<close>

datatype event =
    Semantic_Error int int int
  | Debug_no_attr int
  | IntVal_not_leaf
  | SetLeftChild_not_expr
  | SetRightChild_not_expr
  | Field_prefix int
  | Method_members int

record state =
  stack :: "int \<Rightarrow> StackEntry"
  st :: "int \<Rightarrow> int"
  attrarray :: "int \<Rightarrow> attr_type"
  stack_top :: int
  st_top :: int
  nesting :: int
  attr_top :: int
  heap :: "int \<Rightarrow> ILTree option"
  brk :: int
  strg_tbl :: "string list"
  out :: "event list"

text \<open>
  The outcome of a call: it returns a value and the new state, or the process has
  ended in \<open>exit\<close> with a status, or the C program has no defined behaviour there
  (an access outside an array, a dereference of a pointer to no node, a read of an
  uninitialised variable, a loop that never ends over the attribute pool), or the fuel
  of the recursive tree walk has run out.
\<close>

datatype 'a result = Return 'a state | Exit int state | Undefined | OutOfFuel

definition bnd :: "(state \<Rightarrow> 'a result) \<Rightarrow> ('a \<Rightarrow> state \<Rightarrow> 'b result) \<Rightarrow> state \<Rightarrow> 'b result" where
  "bnd f g s = (case f s of Return x s' \<Rightarrow> g x s' | Exit c s' \<Rightarrow> Exit c s'
                 | Undefined \<Rightarrow> Undefined | OutOfFuel \<Rightarrow> OutOfFuel)"

definition ret :: "'a \<Rightarrow> state \<Rightarrow> 'a result" where
  "ret x s = Return x s"

definition pure_of :: "(state \<Rightarrow> 'a option) \<Rightarrow> state \<Rightarrow> 'a result" where
  "pure_of f s = (case f s of None \<Rightarrow> Undefined | Some x \<Rightarrow> Return x s)"

definition printf :: "event \<Rightarrow> state \<Rightarrow> unit result" where
  "printf ev s = Return () (s\<lparr>out := out s @ [ev]\<rparr>)"

section \<open>The symbol table (tree.c, second part)\<close>

text \<open>\<open>error_msg\<close>: print the diagnostic, then \<open>exit(0)\<close> when the action is \<open>ABORT\<close>.\<close>

definition error_msg :: "int \<Rightarrow> int \<Rightarrow> int \<Rightarrow> int \<Rightarrow> state \<Rightarrow> unit result" where
  "error_msg type action ident seq s =
     (let s' = s\<lparr>out := out s @ [Semantic_Error type ident seq]\<rparr>
      in if action = ABORT then Exit 0 s' else Return () s')"

text \<open>
  \<open>Push\<close>. The two flags are passed as \<open>true\<close> or \<open>false\<close> at every call site,
  so they are booleans here.
\<close>

definition Push :: "bool \<Rightarrow> int \<Rightarrow> int \<Rightarrow> bool \<Rightarrow> state \<Rightarrow> unit result" where
  "Push mk nm sp dm =
     bnd (\<lambda>s. if stack_top s \<ge> STACK_SIZE - 1 then error_msg STACK_OVERFLOW ABORT 0 0 s
               else Return () s)
      (\<lambda>_ s. let top = stack_top s + 1 in
              if top < 0 then Undefined
              else Return () (s\<lparr>stack_top := top,
                     stack := (stack s)(top := \<lparr>marker = mk, name = nm, st_ptr = sp,
                                                dummy = dm, used = False\<rparr>)\<rparr>))"

text \<open>
  The scan of \<open>LookUp\<close>: \<open>for (i = stack_top; i > 0; i--)\<close>, returning the index of the
  first frame that is not a marker and has the name.
\<close>

function LookUp_scan :: "(int \<Rightarrow> StackEntry) \<Rightarrow> int \<Rightarrow> int \<Rightarrow> int option" where
  "LookUp_scan stk ident i =
     (if i > 0 then
        (if \<not> marker (stk i) \<and> name (stk i) = ident then Some i
         else LookUp_scan stk ident (i - 1))
      else None)"
  by pat_completeness auto
termination
  by (relation "measure (\<lambda>(stk, ident, i). nat i)") auto

declare LookUp_scan.simps [simp del]

definition LookUp :: "int \<Rightarrow> state \<Rightarrow> int result" where
  "LookUp ident s =
     (if stack_top s \<ge> STACK_SIZE then Undefined
      else case LookUp_scan (stack s) ident (stack_top s) of
        Some i \<Rightarrow>
          Return (st_ptr (stack s i))
                 (s\<lparr>stack := (stack s)(i := (stack s i)\<lparr>used := True\<rparr>)\<rparr>)
      | None \<Rightarrow>
          bnd (error_msg UNDECLARATION CONTINUE ident 0)
            (\<lambda>_. bnd (Push False ident 0 True) (\<lambda>_. ret 0)) s)"

text \<open>
  The scan of \<open>LookUpHere\<close>: \<open>for (i = stack_top; !stack[i].marker; i--)\<close>. Nothing
  stops it at index 0, so a stack without a marker is read below its first element:
  that is \<open>None\<close>.
\<close>

function LookUpHere_scan :: "(int \<Rightarrow> StackEntry) \<Rightarrow> int \<Rightarrow> int \<Rightarrow> int option" where
  "LookUpHere_scan stk ident i =
     (if i < 0 \<or> STACK_SIZE \<le> i then None
      else if marker (stk i) then Some 0
      else if name (stk i) = ident \<and> \<not> dummy (stk i) then Some (st_ptr (stk i))
      else LookUpHere_scan stk ident (i - 1))"
  by pat_completeness auto
termination
  by (relation "measure (\<lambda>(stk, ident, i). nat (i + 1))") auto

declare LookUpHere_scan.simps [simp del]

definition LookUpHere :: "int \<Rightarrow> state \<Rightarrow> int option" where
  "LookUpHere ident s = LookUpHere_scan (stack s) ident (stack_top s)"

text \<open>
  \<open>IsAttr\<close>: follow the list of the entry. The stored attribute number is a \<open>char\<close>,
  promoted to \<open>int\<close> in the comparisons. \<open>None\<close> stands for an index outside the
  pool, and for a list that never ends.
\<close>

partial_function (option) IsAttr_loop :: "(int \<Rightarrow> attr_type) \<Rightarrow> int \<Rightarrow> int \<Rightarrow> int option" where
  "IsAttr_loop A k i =
     (if i = 0 then Some 0
      else if i < 0 \<or> ATTR_SIZE \<le> i then None
      else if attr_num (A i) = k then Some i
      else if attr_num (A i) > k then Some 0
      else IsAttr_loop A k (next_attr (A i)))"

definition IsAttr :: "int \<Rightarrow> int \<Rightarrow> state \<Rightarrow> int option" where
  "IsAttr sp k s =
     (if sp < 0 \<or> ST_SIZE \<le> sp then None else IsAttr_loop (attrarray s) k (st s sp))"

definition GetAttr :: "int \<Rightarrow> int \<Rightarrow> state \<Rightarrow> int result" where
  "GetAttr sp k =
     bnd (pure_of (IsAttr sp k))
       (\<lambda>i. if i = 0 then bnd (printf (Debug_no_attr k)) (\<lambda>_. ret 0)
             else (\<lambda>s. Return (attr_val (attrarray s i)) s))"

text \<open>
  \<open>SetAttr\<close>. The pointer \<open>p\<close> of the code points either at \<open>st[st_ptr]\<close> or at the
  \<open>next_attr\<close> field of a cell. The conversion of the attribute number to the \<open>char\<close>
  field is \<open>to_char\<close> (a signed 8-bit \<open>char\<close>, as on the x86 target of the Makefile).
\<close>

datatype link = At_st int | At_next int

definition to_char :: "int \<Rightarrow> int" where
  "to_char k = (k + 128) mod 256 - 128"

partial_function (option) SetAttr_find :: "(int \<Rightarrow> attr_type) \<Rightarrow> int \<Rightarrow> link \<Rightarrow> int \<Rightarrow> (link \<times> int) option" where
  "SetAttr_find A k p nxt =
     (if nxt = 0 then Some (p, nxt)
      else if nxt < 0 \<or> ATTR_SIZE \<le> nxt then None
      else if attr_num (A nxt) < k
        then SetAttr_find A k (At_next nxt) (next_attr (A nxt))
      else Some (p, nxt))"

definition store_link :: "link \<Rightarrow> int \<Rightarrow> state \<Rightarrow> state" where
  "store_link p v s =
     (case p of
        At_st sp \<Rightarrow> s\<lparr>st := (st s)(sp := v)\<rparr>
      | At_next c \<Rightarrow> s\<lparr>attrarray := (attrarray s)(c := (attrarray s c)\<lparr>next_attr := v\<rparr>)\<rparr>)"

definition SetAttr :: "int \<Rightarrow> int \<Rightarrow> int \<Rightarrow> state \<Rightarrow> unit result" where
  "SetAttr sp k v =
     bnd (pure_of (IsAttr sp k))
       (\<lambda>i. if i \<noteq> 0
          then (\<lambda>s. Return () (s\<lparr>attrarray := (attrarray s)(i := (attrarray s i)\<lparr>attr_val := v\<rparr>)\<rparr>))
          else
            bnd (pure_of (\<lambda>s. SetAttr_find (attrarray s) k (At_st sp) (st s sp)))
              (\<lambda>(p, nxt).
                 bnd (\<lambda>s. if attr_top s \<ge> ATTR_SIZE - 1 then error_msg ATTR_OVERFLOW ABORT 0 0 s
                           else Return () s)
                   (\<lambda>_ s. let top = attr_top s + 1 in
                      if top < 0 then Undefined
                      else Return ()
                        (store_link p top
                          (s\<lparr>attr_top := top,
                             attrarray := (attrarray s)(top :=
                               \<lparr>attr_num = to_char k, attr_val = v, next_attr = nxt\<rparr>)\<rparr>)))))"

definition InsertEntry :: "int \<Rightarrow> state \<Rightarrow> int result" where
  "InsertEntry ident =
     bnd (pure_of (LookUpHere ident))
       (\<lambda>here. if here \<noteq> 0
          then bnd (error_msg REDECLARATION CONTINUE ident 0) (\<lambda>_. ret 0)
          else
            bnd (\<lambda>s. if st_top s \<ge> ST_SIZE - 1 then error_msg ST_OVERFLOW ABORT 0 0 s
                      else Return () s)
              (\<lambda>_. bnd (\<lambda>s. let top = st_top s + 1 in
                               if top < 0 then Undefined
                               else Return top (s\<lparr>st_top := top, st := (st s)(top := 0)\<rparr>))
                 (\<lambda>top. bnd (SetAttr top NAME_ATTR ident)
                    (\<lambda>_. bnd (\<lambda>s. SetAttr top NEST_ATTR (nesting s) s)
                       (\<lambda>_. bnd (Push False ident top False)
                          (\<lambda>_. ret top))))))"

definition OpenBlock :: "state \<Rightarrow> unit result" where
  "OpenBlock = bnd (\<lambda>s. Return () (s\<lparr>nesting := nesting s + 1\<rparr>)) (\<lambda>_. Push True 0 0 False)"

text \<open>
  \<open>CloseBlock\<close>: the loop only walks down to the marker (its body is commented out in
  the source); like the scan of \<open>LookUpHere\<close> it has no lower bound.
\<close>

function CloseBlock_scan :: "(int \<Rightarrow> StackEntry) \<Rightarrow> int \<Rightarrow> int option" where
  "CloseBlock_scan stk i =
     (if i < 0 \<or> STACK_SIZE \<le> i then None
      else if marker (stk i) then Some i
      else CloseBlock_scan stk (i - 1))"
  by pat_completeness auto
termination
  by (relation "measure (\<lambda>(stk, i). nat (i + 1))") auto

declare CloseBlock_scan.simps [simp del]

definition CloseBlock :: "state \<Rightarrow> unit result" where
  "CloseBlock =
     bnd (pure_of (\<lambda>s. CloseBlock_scan (stack s) (stack_top s)))
       (\<lambda>i s. Return () (s\<lparr>nesting := nesting s - 1, stack_top := i - 1\<rparr>))"

section \<open>The state at program start\<close>

text \<open>
  The globals as C initialises them: every array zeroed, every counter 0. The one tree
  node that exists is the global \<open>dummy\<close>, at address \<open>NullExp\<close>.
\<close>

abbreviation (input) NullExp :: int where "NullExp \<equiv> 1"

definition dummy_node :: ILTree where
  "dummy_node = \<lparr>NodeKind_f = DUMMYNode, NodeOpType = 0, IntVal_f = 0, LeftC = 0, RightC = 0\<rparr>"

definition init_state :: "string list \<Rightarrow> state" where
  "init_state tbl =
     \<lparr>stack = (\<lambda>_. \<lparr>marker = False, name = 0, st_ptr = 0, dummy = False, used = False\<rparr>),
      st = (\<lambda>_. 0),
      attrarray = (\<lambda>_. \<lparr>attr_num = 0, attr_val = 0, next_attr = 0\<rparr>),
      stack_top = 0, st_top = 0, nesting = 0, attr_top = 0,
      heap = (\<lambda>_. None)(NullExp := Some dummy_node), brk = 2,
      strg_tbl = tbl, out = []\<rparr>"

text \<open>
  A state with one open scope holding one declared name: the state reached from program
  start by \<open>OpenBlock(); InsertEntry(7)\<close>.
\<close>

definition one_symbol_state :: state where
  "one_symbol_state =
     \<lparr>stack = (\<lambda>_. \<lparr>marker = False, name = 0, st_ptr = 0, dummy = False, used = False\<rparr>)
        (1 := \<lparr>marker = True, name = 0, st_ptr = 0, dummy = False, used = False\<rparr>,
         2 := \<lparr>marker = False, name = 7, st_ptr = 1, dummy = False, used = False\<rparr>),
      st = (\<lambda>_. 0)(1 := 1),
      attrarray = (\<lambda>_. \<lparr>attr_num = 0, attr_val = 0, next_attr = 0\<rparr>)
        (2 := \<lparr>attr_num = 2, attr_val = 1, next_attr = 0\<rparr>,
         1 := \<lparr>attr_num = 1, attr_val = 7, next_attr = 2\<rparr>),
      stack_top = 2, st_top = 1, nesting = 1, attr_top = 2,
      heap = (\<lambda>_. None)(NullExp := Some dummy_node), brk = 2,
      strg_tbl = [], out = []\<rparr>"

text \<open>
  A state with one open scope and one undeclared name looked up in it: the state reached
  from program start by \<open>OpenBlock(); LookUp(7)\<close>.
\<close>

definition undeclared_state :: state where
  "undeclared_state =
     \<lparr>stack = (\<lambda>_. \<lparr>marker = False, name = 0, st_ptr = 0, dummy = False, used = False\<rparr>)
        (1 := \<lparr>marker = True, name = 0, st_ptr = 0, dummy = False, used = False\<rparr>,
         2 := \<lparr>marker = False, name = 7, st_ptr = 0, dummy = True, used = False\<rparr>),
      st = (\<lambda>_. 0),
      attrarray = (\<lambda>_. \<lparr>attr_num = 0, attr_val = 0, next_attr = 0\<rparr>),
      stack_top = 2, st_top = 0, nesting = 1, attr_top = 0,
      heap = (\<lambda>_. None)(NullExp := Some dummy_node), brk = 2,
      strg_tbl = [], out = [Semantic_Error UNDECLARATION 7 0]\<rparr>"

section \<open>Auxiliary definitions for the statements\<close>

text \<open>
  \<open>inserted ident s\<close> is the state that a successful \<open>InsertEntry(ident)\<close> leaves:
  one more symbol-table slot, its two attribute cells (Name, then Nest) and one more frame.
  \<open>repeat n f\<close> runs \<open>f\<close> \<open>n\<close> times; \<open>declare_in_scope\<close> declares one name in
  a scope of its own. \<open>returned\<close>, \<open>exit_status\<close> and \<open>printed\<close> read an outcome.
\<close>

definition inserted :: "int \<Rightarrow> state \<Rightarrow> state" where
  "inserted ident s =
     s\<lparr>st_top := st_top s + 1,
       st := (st s)(st_top s + 1 := attr_top s + 1),
       attr_top := attr_top s + 2,
       attrarray := (attrarray s)
         (attr_top s + 1 := \<lparr>attr_num = NAME_ATTR, attr_val = ident, next_attr = attr_top s + 2\<rparr>,
          attr_top s + 2 := \<lparr>attr_num = NEST_ATTR, attr_val = nesting s, next_attr = 0\<rparr>),
       stack_top := stack_top s + 1,
       stack := (stack s)(stack_top s + 1 :=
         \<lparr>marker = False, name = ident, st_ptr = st_top s + 1, dummy = False, used = False\<rparr>)\<rparr>"

primrec repeat :: "nat \<Rightarrow> (state \<Rightarrow> unit result) \<Rightarrow> state \<Rightarrow> unit result" where
  "repeat 0 f = ret ()"
| "repeat (Suc n) f = bnd (repeat n f) (\<lambda>_. f)"

definition declare_in_scope :: "int \<Rightarrow> state \<Rightarrow> unit result" where
  "declare_in_scope ident = bnd OpenBlock (\<lambda>_. bnd (InsertEntry ident) (\<lambda>_. CloseBlock))"

definition exit_status :: "'a result \<Rightarrow> int option" where
  "exit_status r = (case r of Exit c s \<Rightarrow> Some c | _ \<Rightarrow> None)"

definition printed :: "'a result \<Rightarrow> event list" where
  "printed r = (case r of Return x s \<Rightarrow> out s | Exit c s \<Rightarrow> out s | _ \<Rightarrow> [])"

definition full_stack_state :: state where
  "full_stack_state =
     (init_state [])\<lparr>stack := (\<lambda>i. if 1 \<le> i \<and> i \<le> 99
          then \<lparr>marker = True, name = 0, st_ptr = 0, dummy = False, used = False\<rparr>
          else \<lparr>marker = False, name = 0, st_ptr = 0, dummy = False, used = False\<rparr>),
        stack_top := 99, nesting := 99\<rparr>"

definition open_blocks_state :: "int \<Rightarrow> state" where
  "open_blocks_state n =
     (init_state [])\<lparr>stack := (\<lambda>i. if 1 \<le> i \<and> i \<le> n
          then \<lparr>marker = True, name = 0, st_ptr = 0, dummy = False, used = False\<rparr>
          else \<lparr>marker = False, name = 0, st_ptr = 0, dummy = False, used = False\<rparr>),
        stack_top := n, nesting := n\<rparr>"

definition returned :: "'a result \<Rightarrow> bool" where
  "returned r = (case r of Return x s \<Rightarrow> True | _ \<Rightarrow> False)"

text \<open>
  Operations between a matched \<open>OpenBlock\<close> and \<open>CloseBlock\<close>: a declaration
  (\<open>InsertEntry\<close>), a use (\<open>LookUp\<close>) or a nested matched pair with its own body.
  Running them returns the list of the symbols declared, each with the nesting depth at
  the time of its push. \<open>same_frame\<close> compares two frames up to a \<open>used\<close> flag that
  has been set; \<open>has_nest s sy d\<close> says that the attribute list of \<open>sy\<close> starts with its
  Name cell followed by a Nest cell of value \<open>d\<close>; \<open>sane\<close> bounds the three counters by
  the array sizes; \<open>grows\<close> relates the states before and after operations that leave the
  enclosing scopes alone.
\<close>

datatype scope_op = Declare int | Use int | Block "scope_op list"

fun run_op :: "scope_op \<Rightarrow> state \<Rightarrow> (int \<times> int) list result"
  and run_ops :: "scope_op list \<Rightarrow> state \<Rightarrow> (int \<times> int) list result" where
  "run_op (Declare ident) =
     (\<lambda>s. bnd (InsertEntry ident) (\<lambda>r. ret (if r = 0 then [] else [(r, nesting s)])) s)"
| "run_op (Use ident) = bnd (LookUp ident) (\<lambda>_. ret [])"
| "run_op (Block ops) =
     bnd OpenBlock (\<lambda>_. bnd (run_ops ops) (\<lambda>l. bnd CloseBlock (\<lambda>_. ret l)))"
| "run_ops [] = ret []"
| "run_ops (x # xs) = bnd (run_op x) (\<lambda>l. bnd (run_ops xs) (\<lambda>l'. ret (l @ l')))"

fun lookup_free :: "scope_op \<Rightarrow> bool" where
  "lookup_free (Declare ident) = True"
| "lookup_free (Use ident) = False"
| "lookup_free (Block ops) = list_all lookup_free ops"

definition same_frame :: "StackEntry \<Rightarrow> StackEntry \<Rightarrow> bool" where
  "same_frame f f' =
     (marker f' = marker f \<and> name f' = name f \<and> st_ptr f' = st_ptr f \<and> dummy f' = dummy f
      \<and> (used f \<longrightarrow> used f'))"

definition has_nest :: "state \<Rightarrow> int \<Rightarrow> int \<Rightarrow> bool" where
  "has_nest s sy d =
     (0 < sy \<and> sy \<le> st_top s \<and> st_top s < ST_SIZE \<and> attr_top s < ATTR_SIZE
      \<and> 0 < st s sy \<and> st s sy \<le> attr_top s
      \<and> attr_num (attrarray s (st s sy)) = NAME_ATTR
      \<and> 0 < next_attr (attrarray s (st s sy))
      \<and> next_attr (attrarray s (st s sy)) \<le> attr_top s
      \<and> attr_num (attrarray s (next_attr (attrarray s (st s sy)))) = NEST_ATTR
      \<and> attr_val (attrarray s (next_attr (attrarray s (st s sy)))) = d)"

definition sane :: "state \<Rightarrow> bool" where
  "sane s = (- 1 \<le> stack_top s \<and> stack_top s < STACK_SIZE
             \<and> 0 \<le> st_top s \<and> st_top s < ST_SIZE
             \<and> 0 \<le> attr_top s \<and> attr_top s < ATTR_SIZE)"

definition grows :: "bool \<Rightarrow> state \<Rightarrow> state \<Rightarrow> bool" where
  "grows b s s' =
     (sane s' \<and> stack_top s \<le> stack_top s' \<and> nesting s' = nesting s
      \<and> (\<forall>i. i \<le> stack_top s \<longrightarrow>
            (if b then stack s' i = stack s i else same_frame (stack s i) (stack s' i)))
      \<and> (\<forall>i. stack_top s < i \<and> i \<le> stack_top s' \<longrightarrow> \<not> marker (stack s' i))
      \<and> (\<forall>sy d. has_nest s sy d \<longrightarrow> has_nest s' sy d))"





text \<open>
  The attribute list of a symbol, read off the pool: \<open>seg A i cs j\<close> says that following
  \<open>next_attr\<close> from index \<open>i\<close> visits exactly the cells \<open>cs\<close>, all inside the pool,
  and arrives at \<open>j\<close>. \<open>attr_list s sp cs\<close>: the list of symbol \<open>sp\<close> consists of the
  cells \<open>cs\<close>, ends with 0, has strictly ascending attribute numbers, and lies in the
  used part of the pool. \<open>kinds\<close> and \<open>attrs_of\<close> read the numbers and the
  (number, value) pairs of the cells.
\<close>

primrec seg :: "(int \<Rightarrow> attr_type) \<Rightarrow> int \<Rightarrow> int list \<Rightarrow> int \<Rightarrow> bool" where
  "seg A i [] j = (i = j)"
| "seg A i (c # cs) j = (i = c \<and> 0 < c \<and> c < ATTR_SIZE \<and> seg A (next_attr (A c)) cs j)"

definition kinds :: "(int \<Rightarrow> attr_type) \<Rightarrow> int list \<Rightarrow> int list" where
  "kinds A cs = map (\<lambda>c. attr_num (A c)) cs"

definition attrs_of :: "(int \<Rightarrow> attr_type) \<Rightarrow> int list \<Rightarrow> (int \<times> int) list" where
  "attrs_of A cs = map (\<lambda>c. (attr_num (A c), attr_val (A c))) cs"

definition attr_list :: "state \<Rightarrow> int \<Rightarrow> int list \<Rightarrow> bool" where
  "attr_list s sp cs =
     (seg (attrarray s) (st s sp) cs 0
      \<and> sorted_wrt (<) (kinds (attrarray s) cs)
      \<and> (\<forall>c\<in>set cs. c \<le> attr_top s))"

section \<open>The syntax tree (tree.c, first part)\<close>

text \<open>
  A node lives at an address of the heap; \<open>deref\<close> is the access through a pointer,
  undefined for a pointer to no node. \<open>malloc\<close> is taken never to fail: \<open>MakeLeaf\<close>
  puts the new node at \<open>brk\<close>, the next address never used before. \<open>MakeLeaf\<close> leaves
  the operator field of the new node unset; the field is never read on a leaf (\<open>NodeOp\<close>
  tests the kind first), and it is 0 here.
\<close>

definition deref :: "int \<Rightarrow> state \<Rightarrow> ILTree result" where
  "deref p s = (case heap s p of None \<Rightarrow> Undefined | Some nd \<Rightarrow> Return nd s)"

definition NodeKind :: "int \<Rightarrow> state \<Rightarrow> int result" where
  "NodeKind T = bnd (deref T) (\<lambda>nd. ret (NodeKind_f nd))"

definition NodeOp :: "int \<Rightarrow> state \<Rightarrow> int result" where
  "NodeOp T =
     bnd (NodeKind T) (\<lambda>k. if k \<noteq> EXPRNode then ret 0
                            else bnd (deref T) (\<lambda>nd. ret (NodeOpType nd)))"

definition IntVal :: "int \<Rightarrow> state \<Rightarrow> int result" where
  "IntVal T =
     bnd (NodeKind T) (\<lambda>k. if k = EXPRNode then bnd (printf IntVal_not_leaf) (\<lambda>_. ret (- 1))
                            else bnd (deref T) (\<lambda>nd. ret (IntVal_f nd)))"

definition IsNull :: "int \<Rightarrow> state \<Rightarrow> bool result" where
  "IsNull T = bnd (NodeKind T) (\<lambda>k. ret (k = DUMMYNode))"

definition LeftChild :: "int \<Rightarrow> state \<Rightarrow> int result" where
  "LeftChild T =
     bnd (NodeKind T) (\<lambda>k. if k \<noteq> EXPRNode then ret NullExp
                            else bnd (deref T) (\<lambda>nd. ret (LeftC nd)))"

definition RightChild :: "int \<Rightarrow> state \<Rightarrow> int result" where
  "RightChild T =
     bnd (NodeKind T) (\<lambda>k. if k \<noteq> EXPRNode then ret NullExp
                            else bnd (deref T) (\<lambda>nd. ret (RightC nd)))"

definition MakeLeaf :: "int \<Rightarrow> int \<Rightarrow> state \<Rightarrow> int result" where
  "MakeLeaf Kind N s =
     (if heap s (brk s) \<noteq> None then Undefined
      else Return (brk s)
        (s\<lparr>heap := (heap s)(brk s := Some \<lparr>NodeKind_f = Kind, NodeOpType = 0, IntVal_f = N,
                                             LeftC = NullExp, RightC = NullExp\<rparr>),
           brk := brk s + 1\<rparr>))"

definition SetLeftChild :: "int \<Rightarrow> int \<Rightarrow> state \<Rightarrow> unit result" where
  "SetLeftChild T NewC =
     bnd (NodeKind T) (\<lambda>k. if k \<noteq> EXPRNode then printf SetLeftChild_not_expr
        else bnd (deref T) (\<lambda>nd s. Return () (s\<lparr>heap := (heap s)(T := Some (nd\<lparr>LeftC := NewC\<rparr>))\<rparr>)))"

definition SetRightChild :: "int \<Rightarrow> int \<Rightarrow> state \<Rightarrow> unit result" where
  "SetRightChild T NewC =
     bnd (NodeKind T) (\<lambda>k. if k \<noteq> EXPRNode then printf SetRightChild_not_expr
        else bnd (deref T) (\<lambda>nd s. Return () (s\<lparr>heap := (heap s)(T := Some (nd\<lparr>RightC := NewC\<rparr>))\<rparr>)))"

text \<open>
  \<open>free\<close>: the node is gone, and a later access through a pointer to it is undefined.
  Freeing the global \<open>dummy\<close>, which \<open>malloc\<close> did not return, is undefined as well.
\<close>

definition free :: "int \<Rightarrow> state \<Rightarrow> unit result" where
  "free p s = (if p = NullExp \<or> heap s p = None then Undefined
               else Return () (s\<lparr>heap := (heap s)(p := None)\<rparr>))"

section \<open>The string table (string\_hash\_table.c)\<close>

text \<open>
  The string table is the sequence of the NUL-terminated strings stored so far; a string
  is known by the index of its first character. \<open>loc_str\<close> walks the strings from index
  0 and returns the index of the first one equal to its argument, or -1.
\<close>

fun loc_str_from :: "int \<Rightarrow> string list \<Rightarrow> string \<Rightarrow> int" where
  "loc_str_from i [] x = - 1"
| "loc_str_from i (e # es) x = (if e = x then i else loc_str_from (i + int (length e) + 1) es x)"

definition loc_str :: "string \<Rightarrow> state \<Rightarrow> int result" where
  "loc_str x s = Return (loc_str_from 0 (strg_tbl s) x) s"

section \<open>The semantic analyzer (semantic\_analyzer.c)\<close>

text \<open>
  Every handler that calls \<open>MkST\<close> takes the call as its parameter \<open>mk\<close>; \<open>MkST\<close> itself
  is defined by recursion on a fuel, which bounds the depth of the calls and, passed on
  as \<open>n\<close>, the number of iterations of every loop that follows pointers. A run that
  needs more is \<open>OutOfFuel\<close>.
\<close>

definition classdefop :: "(int \<Rightarrow> state \<Rightarrow> unit result) \<Rightarrow> int \<Rightarrow> state \<Rightarrow> unit result" where
  "classdefop mk node =
     bnd (RightChild node) (\<lambda>child.
     bnd (IntVal child) (\<lambda>nStrInd.
     bnd (InsertEntry nStrInd) (\<lambda>nSymInd.
     bnd (SetAttr nSymInd KIND_ATTR CLASS) (\<lambda>_.
     bnd OpenBlock (\<lambda>_.
     bnd (free child) (\<lambda>_.
     bnd (MakeLeaf STNode nSymInd) (\<lambda>leaf.
     bnd (SetRightChild node leaf) (\<lambda>_.
     bnd (LeftChild node) (\<lambda>body.
     bnd (mk body) (\<lambda>_.
     CloseBlock))))))))))"

text \<open>
  The loop of \<open>methodop\<close> over the symbol table, \<open>for (i = 0; i <= st_top; i++)\<close>: it
  returns \<open>True\<close> where the code reports the redeclaration and returns.
\<close>

function main_scan :: "int \<Rightarrow> int \<Rightarrow> state \<Rightarrow> bool result" where
  "main_scan nStrInd i s =
     (if i \<le> st_top s then
        (case IsAttr i NAME_ATTR s of
           None \<Rightarrow> Undefined
         | Some a \<Rightarrow>
             if a \<noteq> 0 then
               (case GetAttr i NAME_ATTR s of
                  Return v s' \<Rightarrow> if v = nStrInd then Return True s' else main_scan nStrInd (i + 1) s'
                | Exit c s' \<Rightarrow> Exit c s'
                | Undefined \<Rightarrow> Undefined
                | OutOfFuel \<Rightarrow> OutOfFuel)
             else main_scan nStrInd (i + 1) s)
      else Return False s)"
  by pat_completeness auto
termination
  by (relation "measure (\<lambda>(nStrInd, i, s). nat (st_top s + 1 - i))")
     (auto simp: GetAttr_def bnd_def pure_of_def printf_def split: option.splits if_splits)

declare main_scan.simps [simp del]

definition methodop :: "(int \<Rightarrow> state \<Rightarrow> unit result) \<Rightarrow> int \<Rightarrow> state \<Rightarrow> unit result" where
  "methodop mk node =
     bnd (LeftChild node) (\<lambda>child.
     bnd (LeftChild child) (\<lambda>name_node.
     bnd (IntVal name_node) (\<lambda>nStrInd.
     bnd (loc_str ''main'') (\<lambda>main_id.
     bnd (if nStrInd = main_id then main_scan nStrInd 0 else ret False) (\<lambda>redeclared.
     if redeclared then error_msg REDECLARATION CONTINUE nStrInd 0
     else
       bnd (InsertEntry nStrInd) (\<lambda>nSymInd.
       bnd OpenBlock (\<lambda>_.
       bnd (RightChild child) (\<lambda>spec.
       bnd (RightChild spec) (\<lambda>child1.
       bnd (IsNull child1) (\<lambda>no_type.
       bnd (if \<not> no_type
            then bnd (SetAttr nSymInd KIND_ATTR FUNC) (\<lambda>_. SetAttr nSymInd TYPE_ATTR child1)
            else SetAttr nSymInd KIND_ATTR PROCE) (\<lambda>_.
       bnd (LeftChild child) (\<lambda>old.
       bnd (free old) (\<lambda>_.
       bnd (MakeLeaf STNode nSymInd) (\<lambda>leaf.
       bnd (SetLeftChild child leaf) (\<lambda>_.
       bnd (RightChild child) (\<lambda>params.
       bnd (mk params) (\<lambda>_.
       bnd (RightChild node) (\<lambda>body.
       bnd (mk body) (\<lambda>_.
       CloseBlock)))))))))))))))))))"

primrec typeidop_loop :: "nat \<Rightarrow> int \<Rightarrow> int \<Rightarrow> state \<Rightarrow> unit result" where
  "typeidop_loop 0 lchild rchild = (\<lambda>s. OutOfFuel)"
| "typeidop_loop (Suc f) lchild rchild =
     bnd (IsNull rchild) (\<lambda>at_end. if at_end then ret () else
     bnd (IsNull lchild) (\<lambda>no_left.
     bnd (if no_left then ret False
          else bnd (NodeKind lchild) (\<lambda>k. ret (k \<noteq> INTEGERTNode))) (\<lambda>user_type.
     bnd (if user_type then
            bnd (IntVal lchild) (\<lambda>nm.
            bnd (LookUp nm) (\<lambda>nSymInd.
            bnd (free lchild) (\<lambda>_.
            bnd (MakeLeaf STNode nSymInd) (\<lambda>leaf.
            SetLeftChild rchild leaf))))
          else ret ()) (\<lambda>_.
     bnd (RightChild rchild) (\<lambda>rchild'.
     bnd (LeftChild rchild') (\<lambda>lchild'.
     typeidop_loop f lchild' rchild'))))))"

definition typeidop :: "nat \<Rightarrow> int \<Rightarrow> state \<Rightarrow> unit result" where
  "typeidop n node = bnd (LeftChild node) (\<lambda>lchild. typeidop_loop n lchild node)"

primrec specop_loop :: "nat \<Rightarrow> int \<Rightarrow> state \<Rightarrow> unit result" where
  "specop_loop 0 child = (\<lambda>s. OutOfFuel)"
| "specop_loop (Suc f) child =
     bnd (IsNull child) (\<lambda>at_end. if at_end then ret () else
     bnd (LeftChild child) (\<lambda>child1.
     bnd (LeftChild child1) (\<lambda>name_node.
     bnd (IntVal name_node) (\<lambda>nStrInd.
     bnd (InsertEntry nStrInd) (\<lambda>nSymInd.
     bnd (RightChild child1) (\<lambda>ty.
     bnd (SetAttr nSymInd TYPE_ATTR ty) (\<lambda>_.
     bnd (NodeOp child) (\<lambda>op.
     bnd (if op = VArgTypeOp then SetAttr nSymInd KIND_ATTR VALUE_ARG
          else bnd (NodeOp child) (\<lambda>op'.
               if op' = RArgTypeOp then SetAttr nSymInd KIND_ATTR REF_ARG else ret ())) (\<lambda>_.
     bnd (LeftChild child1) (\<lambda>old.
     bnd (free old) (\<lambda>_.
     bnd (MakeLeaf STNode nSymInd) (\<lambda>leaf.
     bnd (SetLeftChild child1 leaf) (\<lambda>_.
     bnd (RightChild child) (\<lambda>child'.
     specop_loop f child'))))))))))))))"

definition specop :: "nat \<Rightarrow> int \<Rightarrow> state \<Rightarrow> unit result" where
  "specop n node = bnd (LeftChild node) (\<lambda>child. specop_loop n child)"

text \<open>
  \<open>varop\<close>. Of its local variables, three live across the iterations of its
  \<open>do ... while\<close> loop: \<open>st_ind0\<close>, \<open>rchild\<close> and \<open>found\<close>, which the code never
  initialises (\<open>None\<close>, and reading it then is undefined). Each case of the \<open>switch\<close>
  returns the new variables, or \<open>None\<close> where the code returns from \<open>varop\<close>. Where C
  leaves the order of evaluation of two operands open (the \<open>==\<close> in the search for a
  field), the left one is taken first.
\<close>

record varop_vars =
  v_st_ind0 :: int
  v_rchild :: int
  v_found :: "bool option"

definition varop_VAR :: "varop_vars \<Rightarrow> state \<Rightarrow> varop_vars option result" where
  "varop_VAR v =
     bnd (GetAttr (v_st_ind0 v) TYPE_ATTR) (\<lambda>typeidop_node.
     bnd (LeftChild typeidop_node) (\<lambda>temp.
     bnd (NodeKind temp) (\<lambda>k.
     if k = INTEGERTNode then
       bnd (IsNull (v_rchild v)) (\<lambda>no_access.
       if no_access then ret None
       else
         bnd (GetAttr (v_st_ind0 v) NAME_ATTR) (\<lambda>nm.
         bnd (printf (Field_prefix nm)) (\<lambda>_.
         bnd (LeftChild (v_rchild v)) (\<lambda>a.
         bnd (LeftChild a) (\<lambda>b.
         bnd (IntVal b) (\<lambda>fld.
         bnd (error_msg FIELD_MIS CONTINUE fld 0) (\<lambda>_. ret None)))))))
     else
       bnd (IntVal temp) (\<lambda>t.
       if t \<noteq> 0 then bnd (GetAttr t NEST_ATTR) (\<lambda>nest0. ret (Some (v\<lparr>v_st_ind0 := t\<rparr>)))
       else ret (Some (v\<lparr>v_st_ind0 := t\<rparr>))))))"

definition varop_routine :: "int \<Rightarrow> varop_vars \<Rightarrow> state \<Rightarrow> varop_vars option result" where
  "varop_routine lchild v =
     bnd (IsNull (v_rchild v)) (\<lambda>no_access.
     if no_access then ret None
     else
       bnd (IntVal lchild) (\<lambda>nm.
       bnd (printf (Method_members nm)) (\<lambda>_.
       bnd (free lchild) (\<lambda>_ s. Exit 1 s))))"

primrec class_scan :: "nat \<Rightarrow> int \<Rightarrow> int \<Rightarrow> int \<Rightarrow> varop_vars \<Rightarrow> state \<Rightarrow> varop_vars result" where
  "class_scan 0 fld_indop nest0 i v = (\<lambda>s. OutOfFuel)"
| "class_scan (Suc f) fld_indop nest0 i v =
     bnd (GetAttr i NAME_ATTR) (\<lambda>a.
     bnd (LeftChild fld_indop) (\<lambda>fn.
     bnd (IntVal fn) (\<lambda>b.
     bnd (if a = b then bnd (GetAttr i NEST_ATTR) (\<lambda>c. ret (c = nest0 + 1)) else ret False) (\<lambda>hit.
     if hit then
       bnd (LeftChild fld_indop) (\<lambda>old.
       bnd (free old) (\<lambda>_.
       bnd (MakeLeaf STNode i) (\<lambda>leaf.
       bnd (SetLeftChild fld_indop leaf) (\<lambda>_.
       bnd (RightChild (v_rchild v)) (\<lambda>rchild'.
       ret (v\<lparr>v_found := Some True, v_st_ind0 := i, v_rchild := rchild'\<rparr>))))))
     else
       bnd (\<lambda>s. if i + 1 \<le> st_top s
                 then bnd (GetAttr (i + 1) NEST_ATTR) (\<lambda>c. ret (c > nest0)) s
                 else ret False s) (\<lambda>again.
       if again then class_scan f fld_indop nest0 (i + 1) v else ret v)))))"

primrec class_index_loop :: "nat \<Rightarrow> int \<Rightarrow> state \<Rightarrow> int option result" where
  "class_index_loop 0 rchild = (\<lambda>s. OutOfFuel)"
| "class_index_loop (Suc f) rchild =
     bnd (IsNull rchild) (\<lambda>at_end. if at_end then ret (Some rchild) else
     bnd (RightChild rchild) (\<lambda>rchild'.
     bnd (LeftChild rchild') (\<lambda>fld_indop.
     bnd (NodeOp fld_indop) (\<lambda>op.
     if op \<noteq> IndexOp then
       bnd (LeftChild fld_indop) (\<lambda>fn.
       bnd (IntVal fn) (\<lambda>fld.
       bnd (error_msg FIELD_MIS CONTINUE fld 0) (\<lambda>_. ret None)))
     else class_index_loop f rchild'))))"

definition varop_CLASS :: "nat \<Rightarrow> int \<Rightarrow> varop_vars \<Rightarrow> state \<Rightarrow> varop_vars option result" where
  "varop_CLASS n declop v =
     bnd (GetAttr (v_st_ind0 v) NEST_ATTR) (\<lambda>nest0.
     bnd (LeftChild (v_rchild v)) (\<lambda>fld_indop.
     bnd (NodeOp fld_indop) (\<lambda>op.
     if op = FieldOp then
       bnd (class_scan n fld_indop nest0 (v_st_ind0 v + 1) v) (\<lambda>v'.
       case v_found v' of
         None \<Rightarrow> (\<lambda>s. Undefined)
       | Some fnd \<Rightarrow>
           if \<not> fnd then
             bnd (LeftChild fld_indop) (\<lambda>fn.
             bnd (IntVal fn) (\<lambda>fld.
             bnd (error_msg UNDECLARATION CONTINUE fld 0) (\<lambda>_. ret None)))
           else ret (Some v'))
     else
       bnd (NodeOp fld_indop) (\<lambda>op'.
       if op' = IndexOp then
         (if declop \<noteq> 1 then
            bnd (GetAttr (v_st_ind0 v) NAME_ATTR) (\<lambda>nm.
            bnd (error_msg TYPE_MIS CONTINUE nm 0) (\<lambda>_. ret None))
          else
            bnd (RightChild (v_rchild v)) (\<lambda>rchild'.
            bnd (class_index_loop n rchild') (\<lambda>r.
            case r of None \<Rightarrow> ret None
                    | Some rchild'' \<Rightarrow> ret (Some (v\<lparr>v_rchild := rchild''\<rparr>)))))
       else ret (Some v)))))"

text \<open>
  The loop over the index operators of an array access, shared by the two branches of
  the \<open>ARR\<close> case: it returns \<open>d\<close>, \<open>rchild\<close>, \<open>selectop\<close> and \<open>fld_indop\<close> as the loop
  leaves them, or \<open>None\<close> where the code returns.
\<close>

primrec index_loop ::
  "(int \<Rightarrow> state \<Rightarrow> unit result) \<Rightarrow> nat \<Rightarrow> int \<Rightarrow> int \<Rightarrow> int \<Rightarrow> int \<Rightarrow> int \<Rightarrow> int \<Rightarrow> state
     \<Rightarrow> (int \<times> int \<times> int \<times> int) option result" where
  "index_loop mk 0 st_ind dimension d rchild selectop fld_indop = (\<lambda>s. OutOfFuel)"
| "index_loop mk (Suc f) st_ind dimension d rchild selectop fld_indop =
     bnd (IsNull rchild) (\<lambda>at_end.
     bnd (if at_end then ret False
          else bnd (NodeOp fld_indop) (\<lambda>op. ret (op \<noteq> FieldOp))) (\<lambda>is_index.
     if \<not> is_index then ret (Some (d, rchild, selectop, fld_indop))
     else if d + 1 > dimension then
       bnd (GetAttr st_ind NAME_ATTR) (\<lambda>nm.
       bnd (error_msg INDX_MIS CONTINUE nm 0) (\<lambda>_. ret None))
     else
       bnd (LeftChild fld_indop) (\<lambda>e.
       bnd (NodeKind e) (\<lambda>k.
       bnd (if k = EXPRNode then bnd (LeftChild fld_indop) (\<lambda>e'. mk e') else ret ()) (\<lambda>_.
       bnd (RightChild rchild) (\<lambda>rchild'.
       bnd (LeftChild rchild') (\<lambda>fld_indop'.
       index_loop mk f st_ind dimension (d + 1) rchild' rchild' fld_indop')))))))"

definition length_access :: "int \<Rightarrow> int \<Rightarrow> int \<Rightarrow> state \<Rightarrow> int option result" where
  "length_access st_ind rchild selectop =
     bnd (RightChild selectop) (\<lambda>more.
     bnd (IsNull more) (\<lambda>last_access.
     if \<not> last_access then
       bnd (GetAttr st_ind NAME_ATTR) (\<lambda>nm.
       bnd (error_msg TYPE_MIS CONTINUE nm 0) (\<lambda>_. ret None))
     else bnd (RightChild rchild) (\<lambda>rchild'. ret (Some rchild'))))"

definition varop_ARR ::
  "(int \<Rightarrow> state \<Rightarrow> unit result) \<Rightarrow> nat \<Rightarrow> varop_vars \<Rightarrow> state \<Rightarrow> varop_vars option result" where
  "varop_ARR mk n v =
     bnd (IsNull (v_rchild v)) (\<lambda>no_access.
     if no_access then
       bnd (GetAttr (v_st_ind0 v) NAME_ATTR) (\<lambda>nm.
       bnd (error_msg INDX_MIS CONTINUE nm 0) (\<lambda>_. ret None))
     else
       bnd (GetAttr (v_st_ind0 v) TYPE_ATTR) (\<lambda>typeidop_node.
       bnd (LeftChild typeidop_node) (\<lambda>temp.
       bnd (LeftChild (v_rchild v)) (\<lambda>fld_indop0.
       bnd (GetAttr (v_st_ind0 v) DIMEN_ATTR) (\<lambda>dimension.
       bnd (NodeKind temp) (\<lambda>k.
       if k = INTEGERTNode then
         bnd (index_loop mk n (v_st_ind0 v) dimension 0 (v_rchild v) (v_rchild v) fld_indop0) (\<lambda>r.
         case r of
           None \<Rightarrow> ret None
         | Some (d, rchild, selectop, fld_indop) \<Rightarrow>
             bnd (IsNull rchild) (\<lambda>at_end.
             if at_end \<and> d < dimension then
               bnd (GetAttr (v_st_ind0 v) NAME_ATTR) (\<lambda>nm.
               bnd (error_msg INDX_MIS CONTINUE nm 0) (\<lambda>_. ret None))
             else if \<not> at_end then
               bnd (LeftChild fld_indop) (\<lambda>fn.
               bnd (IntVal fn) (\<lambda>fld.
               bnd (loc_str ''length'') (\<lambda>len.
               if fld \<noteq> len then
                 bnd (GetAttr (v_st_ind0 v) NAME_ATTR) (\<lambda>nm.
                 bnd (error_msg TYPE_MIS CONTINUE nm 0) (\<lambda>_. ret None))
               else
                 bnd (length_access (v_st_ind0 v) rchild selectop) (\<lambda>r'.
                 case r' of None \<Rightarrow> ret None
                          | Some rchild' \<Rightarrow> ret (Some (v\<lparr>v_rchild := rchild'\<rparr>))))))
             else ret (Some (v\<lparr>v_rchild := rchild\<rparr>))))
       else
         bnd (IntVal temp) (\<lambda>tempind.
         if tempind \<noteq> 0 then
           bnd (index_loop mk n (v_st_ind0 v) dimension 0 (v_rchild v) (v_rchild v) fld_indop0) (\<lambda>r.
           case r of
             None \<Rightarrow> ret None
           | Some (d, rchild, selectop, fld_indop) \<Rightarrow>
               bnd (IsNull rchild) (\<lambda>at_end.
               if at_end \<and> d < dimension then
                 bnd (GetAttr (v_st_ind0 v) NAME_ATTR) (\<lambda>nm.
                 bnd (error_msg INDX_MIS CONTINUE nm 0) (\<lambda>_. ret None))
               else if \<not> at_end then
                 bnd (LeftChild fld_indop) (\<lambda>fn.
                 bnd (IntVal fn) (\<lambda>fld.
                 bnd (loc_str ''length'') (\<lambda>len.
                 if fld \<noteq> len then
                   bnd (GetAttr tempind NEST_ATTR) (\<lambda>nest0.
                   ret (Some (v\<lparr>v_st_ind0 := tempind, v_rchild := rchild\<rparr>)))
                 else
                   bnd (length_access (v_st_ind0 v) rchild selectop) (\<lambda>r'.
                   case r' of None \<Rightarrow> ret None
                            | Some rchild' \<Rightarrow> ret (Some (v\<lparr>v_rchild := rchild'\<rparr>))))))
               else ret (Some (v\<lparr>v_rchild := rchild\<rparr>))))
         else ret (Some v))))))))"

primrec varop_loop ::
  "(int \<Rightarrow> state \<Rightarrow> unit result) \<Rightarrow> nat \<Rightarrow> nat \<Rightarrow> int \<Rightarrow> int \<Rightarrow> varop_vars \<Rightarrow> state \<Rightarrow> unit result" where
  "varop_loop mk n 0 lchild declop v = (\<lambda>s. OutOfFuel)"
| "varop_loop mk n (Suc f) lchild declop v =
     bnd (GetAttr (v_st_ind0 v) KIND_ATTR) (\<lambda>kind.
     bnd (if kind = VAR then varop_VAR v
          else if kind = PROCE \<or> kind = FUNC then varop_routine lchild v
          else if kind = CLASS then varop_CLASS n declop v
          else if kind = ARR then varop_ARR mk n v
          else ret (Some v)) (\<lambda>r.
     case r of
       None \<Rightarrow> ret ()
     | Some v' \<Rightarrow>
         bnd (IsNull (v_rchild v')) (\<lambda>at_end.
         if at_end then ret () else varop_loop mk n f lchild declop v')))"

definition varop :: "(int \<Rightarrow> state \<Rightarrow> unit result) \<Rightarrow> nat \<Rightarrow> int \<Rightarrow> int \<Rightarrow> state \<Rightarrow> unit result" where
  "varop mk n node declop =
     bnd (LeftChild node) (\<lambda>lchild.
     bnd (RightChild node) (\<lambda>rchild.
     bnd (IntVal lchild) (\<lambda>nm.
     bnd (LookUp nm) (\<lambda>nSymInd.
     if nSymInd \<noteq> 0 then
       bnd (MakeLeaf STNode nSymInd) (\<lambda>leaf.
       bnd (SetLeftChild node leaf) (\<lambda>_.
       varop_loop mk n n lchild declop
         \<lparr>v_st_ind0 = nSymInd, v_rchild = rchild, v_found = None\<rparr>))
     else
       bnd (IntVal lchild) (\<lambda>nm'.
       error_msg UNDECLARATION CONTINUE nm' 0)))))"

primrec count_right :: "nat \<Rightarrow> int \<Rightarrow> int \<Rightarrow> state \<Rightarrow> int result" where
  "count_right 0 temp n = (\<lambda>s. OutOfFuel)"
| "count_right (Suc f) temp n =
     bnd (IsNull temp) (\<lambda>at_end. if at_end then ret n
       else bnd (RightChild temp) (\<lambda>temp'. count_right f temp' (n + 1)))"

primrec declop_loop ::
  "(int \<Rightarrow> state \<Rightarrow> unit result) \<Rightarrow> nat \<Rightarrow> nat \<Rightarrow> int \<Rightarrow> state \<Rightarrow> unit result" where
  "declop_loop mk n 0 child = (\<lambda>s. OutOfFuel)"
| "declop_loop mk n (Suc f) child =
     bnd (IsNull child) (\<lambda>at_end. if at_end then ret () else
     bnd (RightChild child) (\<lambda>child1.
     bnd (LeftChild child1) (\<lambda>name_node.
     bnd (IntVal name_node) (\<lambda>nStrInd.
     bnd (InsertEntry nStrInd) (\<lambda>nSymInd.
     if nSymInd = 0 then ret () else
     bnd (RightChild child1) (\<lambda>type_init.
     bnd (LeftChild type_init) (\<lambda>typenode.
     bnd (SetAttr nSymInd TYPE_ATTR typenode) (\<lambda>_.
     bnd (LeftChild child1) (\<lambda>old.
     bnd (free old) (\<lambda>_.
     bnd (MakeLeaf STNode nSymInd) (\<lambda>leaf.
     bnd (SetLeftChild child1 leaf) (\<lambda>_.
     bnd (typeidop n typenode) (\<lambda>_.
     bnd (RightChild typenode) (\<lambda>dims.
     bnd (IsNull dims) (\<lambda>scalar.
     bnd (if scalar then SetAttr nSymInd KIND_ATTR VAR
          else
            bnd (RightChild typenode) (\<lambda>dims'.
            bnd (NodeOp dims') (\<lambda>op.
            if op = IndexOp then
              bnd (RightChild typenode) (\<lambda>temp.
              bnd (count_right n temp 0) (\<lambda>cnt.
              bnd (SetAttr nSymInd DIMEN_ATTR cnt) (\<lambda>_.
              SetAttr nSymInd KIND_ATTR ARR)))
            else ret ()))) (\<lambda>_.
     bnd (RightChild child1) (\<lambda>type_init'.
     bnd (RightChild type_init') (\<lambda>child2.
     bnd (NodeOp child2) (\<lambda>op2.
     bnd (if op2 = VarOp then varop mk n child2 1 else mk child2) (\<lambda>_.
     bnd (LeftChild child) (\<lambda>child'.
     declop_loop mk n f child')))))))))))))))))))))"

definition declop :: "(int \<Rightarrow> state \<Rightarrow> unit result) \<Rightarrow> nat \<Rightarrow> int \<Rightarrow> state \<Rightarrow> unit result" where
  "declop mk n node = declop_loop mk n n node"

definition routinecallop :: "(int \<Rightarrow> state \<Rightarrow> unit result) \<Rightarrow> nat \<Rightarrow> int \<Rightarrow> state \<Rightarrow> unit result" where
  "routinecallop mk n node =
     bnd (LeftChild node) (\<lambda>lchild.
     bnd (RightChild node) (\<lambda>rchild.
     bnd (varop mk n lchild 2) (\<lambda>_.
     mk rchild)))"

primrec MkST :: "nat \<Rightarrow> int \<Rightarrow> state \<Rightarrow> unit result" where
  "MkST 0 treenode = (\<lambda>s. OutOfFuel)"
| "MkST (Suc n) treenode =
     bnd (IsNull treenode) (\<lambda>null. if null then ret () else
     bnd (NodeOp treenode) (\<lambda>op.
     if op = ClassDefOp then classdefop (MkST n) treenode
     else if op = MethodOp then methodop (MkST n) treenode
     else if op = DeclOp then declop (MkST n) n treenode
     else if op = SpecOp then specop n treenode
     else if op = TypeIdOp then typeidop n treenode
     else if op = VarOp then varop (MkST n) n treenode 0
     else if op = RoutineCallOp then routinecallop (MkST n) n treenode
     else
       bnd (LeftChild treenode) (\<lambda>l.
       bnd (MkST n l) (\<lambda>_.
       bnd (RightChild treenode) (\<lambda>r.
       MkST n r)))))"

text \<open>
  A state in which the name \<open>main\<close> (index 7 of the string table) was declared in a
  scope that is closed again, and the tree of a method named \<open>main\<close> waits at address 2:
  a \<open>MethodOp\<close> node whose left child is the \<open>HeadOp\<close> node with the name leaf.
\<close>

definition second_main_state :: state where
  "second_main_state =
     one_symbol_state
       \<lparr>stack_top := 0, nesting := 0,
        heap := (\<lambda>_. None)
          (NullExp := Some dummy_node,
           2 := Some \<lparr>NodeKind_f = EXPRNode, NodeOpType = MethodOp, IntVal_f = 0, LeftC = 3, RightC = NullExp\<rparr>,
           3 := Some \<lparr>NodeKind_f = EXPRNode, NodeOpType = HeadOp, IntVal_f = 0, LeftC = 4, RightC = NullExp\<rparr>,
           4 := Some \<lparr>NodeKind_f = IDNode, NodeOpType = 0, IntVal_f = 7, LeftC = NullExp, RightC = NullExp\<rparr>),
        brk := 5,
        strg_tbl := [''Driver'', ''main'']\<rparr>"

text \<open>
  The states of a run of the analyzer on a small tree. \<open>class_tree_state\<close>: one scope
  is open and holds the predefined class \<open>system\<close> (name 0), declared as \<open>STInit\<close>
  declares it; at address 2 waits the tree of a class named \<open>C\<close> (name 7) whose body is
  one use of \<open>system\<close>: a \<open>ClassDefOp\<close> node with the name leaf on the right and a
  \<open>VarOp\<close> node on the left. \<open>analysed_once_state\<close> and \<open>analysed_twice_state\<close> are the
  states after one and after two runs of \<open>MkST\<close> on that tree.
\<close>

definition class_tree_state :: state where
  "class_tree_state =
     \<lparr>stack = (\<lambda>_. \<lparr>marker = False, name = 0, st_ptr = 0, dummy = False, used = False\<rparr>)
        (1 := \<lparr>marker = True, name = 0, st_ptr = 0, dummy = False, used = False\<rparr>,
         2 := \<lparr>marker = False, name = 0, st_ptr = 1, dummy = False, used = False\<rparr>),
      st = (\<lambda>_. 0)(1 := 1),
      attrarray = (\<lambda>_. \<lparr>attr_num = 0, attr_val = 0, next_attr = 0\<rparr>)
        (1 := \<lparr>attr_num = NAME_ATTR, attr_val = 0, next_attr = 2\<rparr>,
         2 := \<lparr>attr_num = NEST_ATTR, attr_val = 1, next_attr = 3\<rparr>,
         3 := \<lparr>attr_num = PREDE_ATTR, attr_val = 1, next_attr = 4\<rparr>,
         4 := \<lparr>attr_num = KIND_ATTR, attr_val = CLASS, next_attr = 0\<rparr>),
      stack_top = 2, st_top = 1, nesting = 1, attr_top = 4,
      heap = (\<lambda>_. None)
        (NullExp := Some dummy_node,
         2 := Some \<lparr>NodeKind_f = EXPRNode, NodeOpType = ClassDefOp, IntVal_f = 0, LeftC = 4, RightC = 3\<rparr>,
         3 := Some \<lparr>NodeKind_f = IDNode, NodeOpType = 0, IntVal_f = 7, LeftC = NullExp, RightC = NullExp\<rparr>,
         4 := Some \<lparr>NodeKind_f = EXPRNode, NodeOpType = VarOp, IntVal_f = 0, LeftC = 5, RightC = NullExp\<rparr>,
         5 := Some \<lparr>NodeKind_f = IDNode, NodeOpType = 0, IntVal_f = 0, LeftC = NullExp, RightC = NullExp\<rparr>),
      brk = 6, strg_tbl = [''system'', ''C''], out = []\<rparr>"

definition analysed_once_state :: state where
  "analysed_once_state =
     \<lparr>stack = (\<lambda>_. \<lparr>marker = False, name = 0, st_ptr = 0, dummy = False, used = False\<rparr>)
        (1 := \<lparr>marker = True, name = 0, st_ptr = 0, dummy = False, used = False\<rparr>,
         2 := \<lparr>marker = False, name = 0, st_ptr = 1, dummy = False, used = True\<rparr>,
         3 := \<lparr>marker = False, name = 7, st_ptr = 2, dummy = False, used = False\<rparr>,
         4 := \<lparr>marker = True, name = 0, st_ptr = 0, dummy = False, used = False\<rparr>),
      st = (\<lambda>_. 0)(1 := 1, 2 := 5),
      attrarray = (\<lambda>_. \<lparr>attr_num = 0, attr_val = 0, next_attr = 0\<rparr>)
        (1 := \<lparr>attr_num = NAME_ATTR, attr_val = 0, next_attr = 2\<rparr>,
         2 := \<lparr>attr_num = NEST_ATTR, attr_val = 1, next_attr = 3\<rparr>,
         3 := \<lparr>attr_num = PREDE_ATTR, attr_val = 1, next_attr = 4\<rparr>,
         4 := \<lparr>attr_num = KIND_ATTR, attr_val = CLASS, next_attr = 0\<rparr>,
         5 := \<lparr>attr_num = NAME_ATTR, attr_val = 7, next_attr = 6\<rparr>,
         6 := \<lparr>attr_num = NEST_ATTR, attr_val = 1, next_attr = 7\<rparr>,
         7 := \<lparr>attr_num = KIND_ATTR, attr_val = CLASS, next_attr = 0\<rparr>),
      stack_top = 3, st_top = 2, nesting = 1, attr_top = 7,
      heap = (\<lambda>_. None)
        (NullExp := Some dummy_node,
         2 := Some \<lparr>NodeKind_f = EXPRNode, NodeOpType = ClassDefOp, IntVal_f = 0, LeftC = 4, RightC = 6\<rparr>,
         4 := Some \<lparr>NodeKind_f = EXPRNode, NodeOpType = VarOp, IntVal_f = 0, LeftC = 7, RightC = NullExp\<rparr>,
         5 := Some \<lparr>NodeKind_f = IDNode, NodeOpType = 0, IntVal_f = 0, LeftC = NullExp, RightC = NullExp\<rparr>,
         6 := Some \<lparr>NodeKind_f = STNode, NodeOpType = 0, IntVal_f = 2, LeftC = NullExp, RightC = NullExp\<rparr>,
         7 := Some \<lparr>NodeKind_f = STNode, NodeOpType = 0, IntVal_f = 1, LeftC = NullExp, RightC = NullExp\<rparr>),
      brk = 8, strg_tbl = [''system'', ''C''], out = []\<rparr>"

definition analysed_twice_state :: state where
  "analysed_twice_state =
     \<lparr>stack = (\<lambda>_. \<lparr>marker = False, name = 0, st_ptr = 0, dummy = False, used = False\<rparr>)
        (1 := \<lparr>marker = True, name = 0, st_ptr = 0, dummy = False, used = False\<rparr>,
         2 := \<lparr>marker = False, name = 0, st_ptr = 1, dummy = False, used = True\<rparr>,
         3 := \<lparr>marker = False, name = 7, st_ptr = 2, dummy = False, used = False\<rparr>,
         4 := \<lparr>marker = False, name = 2, st_ptr = 3, dummy = False, used = False\<rparr>,
         5 := \<lparr>marker = True, name = 0, st_ptr = 0, dummy = False, used = False\<rparr>,
         6 := \<lparr>marker = False, name = 1, st_ptr = 0, dummy = True, used = False\<rparr>),
      st = (\<lambda>_. 0)(1 := 1, 2 := 5, 3 := 8),
      attrarray = (\<lambda>_. \<lparr>attr_num = 0, attr_val = 0, next_attr = 0\<rparr>)
        (1 := \<lparr>attr_num = NAME_ATTR, attr_val = 0, next_attr = 2\<rparr>,
         2 := \<lparr>attr_num = NEST_ATTR, attr_val = 1, next_attr = 3\<rparr>,
         3 := \<lparr>attr_num = PREDE_ATTR, attr_val = 1, next_attr = 4\<rparr>,
         4 := \<lparr>attr_num = KIND_ATTR, attr_val = CLASS, next_attr = 0\<rparr>,
         5 := \<lparr>attr_num = NAME_ATTR, attr_val = 7, next_attr = 6\<rparr>,
         6 := \<lparr>attr_num = NEST_ATTR, attr_val = 1, next_attr = 7\<rparr>,
         7 := \<lparr>attr_num = KIND_ATTR, attr_val = CLASS, next_attr = 0\<rparr>,
         8 := \<lparr>attr_num = NAME_ATTR, attr_val = 2, next_attr = 9\<rparr>,
         9 := \<lparr>attr_num = NEST_ATTR, attr_val = 1, next_attr = 10\<rparr>,
         10 := \<lparr>attr_num = KIND_ATTR, attr_val = CLASS, next_attr = 0\<rparr>),
      stack_top = 4, st_top = 3, nesting = 1, attr_top = 10,
      heap = (\<lambda>_. None)
        (NullExp := Some dummy_node,
         2 := Some \<lparr>NodeKind_f = EXPRNode, NodeOpType = ClassDefOp, IntVal_f = 0, LeftC = 4, RightC = 8\<rparr>,
         4 := Some \<lparr>NodeKind_f = EXPRNode, NodeOpType = VarOp, IntVal_f = 0, LeftC = 7, RightC = NullExp\<rparr>,
         5 := Some \<lparr>NodeKind_f = IDNode, NodeOpType = 0, IntVal_f = 0, LeftC = NullExp, RightC = NullExp\<rparr>,
         7 := Some \<lparr>NodeKind_f = STNode, NodeOpType = 0, IntVal_f = 1, LeftC = NullExp, RightC = NullExp\<rparr>,
         8 := Some \<lparr>NodeKind_f = STNode, NodeOpType = 0, IntVal_f = 3, LeftC = NullExp, RightC = NullExp\<rparr>),
      brk = 9, strg_tbl = [''system'', ''C''],
      out = [Semantic_Error UNDECLARATION 1 0, Semantic_Error UNDECLARATION 1 0]\<rparr>"

text \<open>
  The seven operators for which \<open>MkST\<close> has a handler. \<open>sum_tree_state\<close> holds the
  tree of \<open>1 + 2\<close> at address 2.
\<close>

definition has_handler :: "int \<Rightarrow> bool" where
  "has_handler op =
     (op = ClassDefOp \<or> op = MethodOp \<or> op = DeclOp \<or> op = SpecOp \<or> op = TypeIdOp
      \<or> op = VarOp \<or> op = RoutineCallOp)"

definition sum_tree_state :: state where
  "sum_tree_state =
     one_symbol_state
       \<lparr>heap := (\<lambda>_. None)
          (NullExp := Some dummy_node,
           2 := Some \<lparr>NodeKind_f = EXPRNode, NodeOpType = AddOp, IntVal_f = 0, LeftC = 3, RightC = 4\<rparr>,
           3 := Some \<lparr>NodeKind_f = NUMNode, NodeOpType = 0, IntVal_f = 1, LeftC = NullExp, RightC = NullExp\<rparr>,
           4 := Some \<lparr>NodeKind_f = NUMNode, NodeOpType = 0, IntVal_f = 2, LeftC = NullExp, RightC = NullExp\<rparr>),
        brk := 5\<rparr>"

text \<open>
  A use of a name: \<open>use_of s node v ch\<close> says that \<open>node\<close> is a \<open>VarOp\<close> node whose left
  child is a leaf holding \<open>v\<close> (the name id before the analysis, the symbol index in the
  \<open>STNode\<close> leaf after it) and whose right child is \<open>ch\<close>. \<open>bound_use node i s\<close> is the
  state in which \<open>varop\<close> has bound the use to the symbol of the stack frame \<open>i\<close>: the
  frame is marked as used, a fresh \<open>STNode\<close> leaf holding the symbol is allocated, and it
  is the new left child of \<open>node\<close>. \<open>null_tree s p\<close>: \<open>p\<close> is the dummy node.
  \<open>int_variable s sy\<close>: the symbol \<open>sy\<close> has the kind \<open>VAR\<close>, and its type attribute
  points to a \<open>TypeIdOp\<close> node over an \<open>INTEGERTNode\<close> leaf.
\<close>

definition use_of :: "state \<Rightarrow> int \<Rightarrow> int \<Rightarrow> int \<Rightarrow> bool" where
  "use_of s node v ch =
     (case heap s node of
        None \<Rightarrow> False
      | Some nd \<Rightarrow>
          NodeKind_f nd = EXPRNode \<and> NodeOpType nd = VarOp \<and> RightC nd = ch
          \<and> (case heap s (LeftC nd) of
                None \<Rightarrow> False
              | Some lf \<Rightarrow> NodeKind_f lf \<noteq> EXPRNode \<and> IntVal_f lf = v))"

definition bound_use :: "int \<Rightarrow> int \<Rightarrow> state \<Rightarrow> state" where
  "bound_use node i s =
     s\<lparr>stack := (stack s)(i := (stack s i)\<lparr>used := True\<rparr>),
       heap := (heap s)
         (brk s := Some \<lparr>NodeKind_f = STNode, NodeOpType = 0, IntVal_f = st_ptr (stack s i),
                         LeftC = NullExp, RightC = NullExp\<rparr>,
          node := map_option (\<lambda>nd. nd\<lparr>LeftC := brk s\<rparr>) (heap s node)),
       brk := brk s + 1\<rparr>"

definition null_tree :: "state \<Rightarrow> int \<Rightarrow> bool" where
  "null_tree s p = (case heap s p of None \<Rightarrow> False | Some nd \<Rightarrow> NodeKind_f nd = DUMMYNode)"

definition int_variable :: "state \<Rightarrow> int \<Rightarrow> bool" where
  "int_variable s sy =
     (GetAttr sy KIND_ATTR s = Return VAR s
      \<and> (case GetAttr sy TYPE_ATTR s of
            Return ty s' \<Rightarrow>
              s' = s
              \<and> (case heap s ty of
                    None \<Rightarrow> False
                  | Some tn \<Rightarrow>
                      NodeKind_f tn = EXPRNode \<and> NodeOpType tn = TypeIdOp
                      \<and> (case heap s (LeftC tn) of
                            None \<Rightarrow> False
                          | Some bt \<Rightarrow> NodeKind_f bt = INTEGERTNode))
          | Exit c s' \<Rightarrow> False
          | Undefined \<Rightarrow> False
          | OutOfFuel \<Rightarrow> False))"

text \<open>
  The trees on which no handler acts. \<open>type_spine d s r\<close>: along the right spine from
  \<open>r\<close>, at most \<open>d\<close> nodes long, every left child (as \<open>LeftChild\<close> reads it) is the dummy
  node or an \<open>INTEGERTNode\<close> leaf, so that the loop of \<open>typeidop\<close> looks nothing up.
  \<open>quiet_tree d s p\<close>, down to depth \<open>d\<close>: the node is the dummy node; or a \<open>TypeIdOp\<close>
  node with such a spine; or a \<open>SpecOp\<close> node without parameters; or its operator (as
  \<open>NodeOp\<close> reads it, 0 for a leaf) has no handler and both its children are quiet.
\<close>

primrec type_spine :: "nat \<Rightarrow> state \<Rightarrow> int \<Rightarrow> bool" where
  "type_spine 0 s r = False"
| "type_spine (Suc d) s r =
     (case heap s r of
        None \<Rightarrow> False
      | Some nd \<Rightarrow>
          NodeKind_f nd = DUMMYNode
          \<or> ((case heap s (if NodeKind_f nd = EXPRNode then LeftC nd else NullExp) of
                 None \<Rightarrow> False
               | Some t \<Rightarrow> NodeKind_f t = DUMMYNode \<or> NodeKind_f t = INTEGERTNode)
              \<and> type_spine d s (if NodeKind_f nd = EXPRNode then RightC nd else NullExp)))"

primrec quiet_tree :: "nat \<Rightarrow> state \<Rightarrow> int \<Rightarrow> bool" where
  "quiet_tree 0 s p = False"
| "quiet_tree (Suc d) s p =
     (case heap s p of
        None \<Rightarrow> False
      | Some nd \<Rightarrow>
          NodeKind_f nd = DUMMYNode
          \<or> (if NodeKind_f nd = EXPRNode \<and> NodeOpType nd = TypeIdOp then type_spine d s p
              else if NodeKind_f nd = EXPRNode \<and> NodeOpType nd = SpecOp
                then 0 < d \<and> null_tree s (LeftC nd)
              else \<not> has_handler (if NodeKind_f nd = EXPRNode then NodeOpType nd else 0)
                   \<and> quiet_tree d s (if NodeKind_f nd = EXPRNode then LeftC nd else NullExp)
                   \<and> quiet_tree d s (if NodeKind_f nd = EXPRNode then RightC nd else NullExp)))"

text \<open>
  \<open>two_vars_state\<close>: the int variables \<open>y\<close> (name 2, symbol 1) and \<open>x\<close> (name 0, symbol 2)
  are declared in the open scope, with the attributes in the cells where \<open>InsertEntry\<close>
  and \<open>SetAttr\<close> put them; their type is the \<open>TypeIdOp\<close> node 2. At address 4 waits a use
  of \<open>x\<close>. \<open>x_used_state\<close> is the state after the analysis of that use.
\<close>

definition two_vars_state :: state where
  "two_vars_state =
     \<lparr>stack = (\<lambda>_. \<lparr>marker = False, name = 0, st_ptr = 0, dummy = False, used = False\<rparr>)
        (1 := \<lparr>marker = True, name = 0, st_ptr = 0, dummy = False, used = False\<rparr>,
         2 := \<lparr>marker = False, name = 2, st_ptr = 1, dummy = False, used = False\<rparr>,
         3 := \<lparr>marker = False, name = 0, st_ptr = 2, dummy = False, used = False\<rparr>),
      st = (\<lambda>_. 0)(1 := 1, 2 := 5),
      attrarray = (\<lambda>_. \<lparr>attr_num = 0, attr_val = 0, next_attr = 0\<rparr>)
        (1 := \<lparr>attr_num = NAME_ATTR, attr_val = 2, next_attr = 2\<rparr>,
         2 := \<lparr>attr_num = NEST_ATTR, attr_val = 1, next_attr = 4\<rparr>,
         3 := \<lparr>attr_num = TYPE_ATTR, attr_val = 2, next_attr = 0\<rparr>,
         4 := \<lparr>attr_num = KIND_ATTR, attr_val = VAR, next_attr = 3\<rparr>,
         5 := \<lparr>attr_num = NAME_ATTR, attr_val = 0, next_attr = 6\<rparr>,
         6 := \<lparr>attr_num = NEST_ATTR, attr_val = 1, next_attr = 8\<rparr>,
         7 := \<lparr>attr_num = TYPE_ATTR, attr_val = 2, next_attr = 0\<rparr>,
         8 := \<lparr>attr_num = KIND_ATTR, attr_val = VAR, next_attr = 7\<rparr>),
      stack_top = 3, st_top = 2, nesting = 1, attr_top = 8,
      heap = (\<lambda>_. None)
        (NullExp := Some dummy_node,
         2 := Some \<lparr>NodeKind_f = EXPRNode, NodeOpType = TypeIdOp, IntVal_f = 0, LeftC = 3, RightC = NullExp\<rparr>,
         3 := Some \<lparr>NodeKind_f = INTEGERTNode, NodeOpType = 0, IntVal_f = 0, LeftC = NullExp, RightC = NullExp\<rparr>,
         4 := Some \<lparr>NodeKind_f = EXPRNode, NodeOpType = VarOp, IntVal_f = 0, LeftC = 5, RightC = NullExp\<rparr>,
         5 := Some \<lparr>NodeKind_f = IDNode, NodeOpType = 0, IntVal_f = 0, LeftC = NullExp, RightC = NullExp\<rparr>),
      brk = 6, strg_tbl = [''x'', ''y''], out = []\<rparr>"

definition x_used_state :: state where
  "x_used_state = bound_use 4 3 two_vars_state"


text \<open>
  What a run of the analyzer leaves alone. \<open>ok_ptr W b q\<close>: the pointer \<open>q\<close> goes into
  the set \<open>W\<close>, to a node allocated from \<open>b\<close> on, or to the dummy node.
  \<open>framed W b h0 s\<close>: the heap cells below \<open>b\<close> and outside \<open>W\<close> are as in \<open>h0\<close>, the
  allocation pointer is at least \<open>b\<close>, and the internal nodes in \<open>W\<close> or allocated from
  \<open>b\<close> on have such pointers as children. \<open>named tb sy c0 nm s\<close>: the string table is
  \<open>tb\<close>, and the first attribute cell \<open>c0\<close> of the symbol \<open>sy\<close> holds its name \<open>nm\<close>.
  \<open>keeps I f R\<close>: started in a state with \<open>I\<close>, the computation \<open>f\<close> returns only in
  states with \<open>I\<close> and only results with \<open>R\<close>. \<open>only_stack s s'\<close>: the state \<open>s'\<close>
  differs from \<open>s\<close> at most in the scope stack, the nesting depth and the output. The
  results of the parts of \<open>varop\<close> carry pointers: \<open>ok_vars\<close>, \<open>ok_opt\<close> and \<open>ok_idx\<close>
  say that they are such pointers.
\<close>

definition ok_ptr :: "int set \<Rightarrow> int \<Rightarrow> int \<Rightarrow> bool" where
  "ok_ptr W b q = (q \<in> W \<or> b \<le> q \<or> q = NullExp)"

definition framed :: "int set \<Rightarrow> int \<Rightarrow> (int \<Rightarrow> ILTree option) \<Rightarrow> state \<Rightarrow> bool" where
  "framed W b h0 s =
     ((\<forall>p. p \<notin> W \<and> p < b \<longrightarrow> heap s p = h0 p)
      \<and> b \<le> brk s
      \<and> (\<forall>p nd. (p \<in> W \<or> b \<le> p) \<and> heap s p = Some nd \<and> NodeKind_f nd = EXPRNode
            \<longrightarrow> ok_ptr W b (LeftC nd) \<and> ok_ptr W b (RightC nd))
      \<and> NullExp \<notin> W \<and> NullExp < b
      \<and> (case h0 NullExp of None \<Rightarrow> False | Some dn \<Rightarrow> NodeKind_f dn \<noteq> EXPRNode))"

definition named :: "string list \<Rightarrow> int \<Rightarrow> int \<Rightarrow> int \<Rightarrow> state \<Rightarrow> bool" where
  "named tb sy c0 nm s =
     (strg_tbl s = tb \<and> st s sy = c0 \<and> attr_num (attrarray s c0) = NAME_ATTR \<and> attr_val (attrarray s c0) = nm
      \<and> c0 \<le> attr_top s \<and> sy \<le> st_top s
      \<and> 0 < c0 \<and> c0 < ATTR_SIZE \<and> 0 \<le> sy \<and> sy < ST_SIZE)"

definition keeps :: "(state \<Rightarrow> bool) \<Rightarrow> (state \<Rightarrow> 'a result) \<Rightarrow> ('a \<Rightarrow> bool) \<Rightarrow> bool" where
  "keeps I f R = (\<forall>s. I s \<longrightarrow> (case f s of Return x s' \<Rightarrow> I s' \<and> R x | _ \<Rightarrow> True))"

abbreviation (input) "kept W b h0 tb sy c0 nm \<equiv> (\<lambda>s. framed W b h0 s \<and> named tb sy c0 nm s)"

definition only_stack :: "state \<Rightarrow> state \<Rightarrow> bool" where
  "only_stack s s' =
     (heap s' = heap s \<and> brk s' = brk s \<and> st s' = st s \<and> attrarray s' = attrarray s
      \<and> attr_top s' = attr_top s \<and> st_top s' = st_top s \<and> strg_tbl s' = strg_tbl s)"

definition ok_vars :: "int set \<Rightarrow> int \<Rightarrow> varop_vars option \<Rightarrow> bool" where
  "ok_vars W b r = (case r of None \<Rightarrow> True | Some v \<Rightarrow> ok_ptr W b (v_rchild v))"

definition ok_opt :: "int set \<Rightarrow> int \<Rightarrow> int option \<Rightarrow> bool" where
  "ok_opt W b r = (case r of None \<Rightarrow> True | Some p \<Rightarrow> ok_ptr W b p)"

definition ok_idx :: "int set \<Rightarrow> int \<Rightarrow> (int \<times> int \<times> int \<times> int) option \<Rightarrow> bool" where
  "ok_idx W b r = (case r of None \<Rightarrow> True
     | Some (d, rc, sel, fi) \<Rightarrow> ok_ptr W b rc \<and> ok_ptr W b sel \<and> ok_ptr W b fi)"

text \<open>
  A use of an array. \<open>index_chain h p xs q\<close>: from \<open>p\<close> the access chain has the index
  steps \<open>xs\<close> and goes on at \<open>q\<close>; a step \<open>(S, I, e)\<close> is a \<open>SelectOp\<close> node \<open>S\<close> whose
  left child is the \<open>IndexOp\<close> node \<open>I\<close> over the index expression \<open>e\<close>, and whose right
  child is the rest of the chain. \<open>index_at h S I\<close>: the \<open>SelectOp\<close> node \<open>S\<close> has the
  \<open>IndexOp\<close> node \<open>I\<close> as its left child. \<open>field_access h S F lf fld q\<close>: the \<open>SelectOp\<close>
  node \<open>S\<close> has as its left child the \<open>FieldOp\<close> node \<open>F\<close> over the leaf \<open>lf\<close> that holds
  the name \<open>fld\<close>, and the chain goes on at \<open>q\<close>. \<open>int_array s sy nm dim\<close>: the symbol
  \<open>sy\<close> is an array of \<open>int\<close> with the name \<open>nm\<close> and \<open>dim\<close> dimensions; its attribute
  list starts with the name, as \<open>InsertEntry\<close> builds it, and its type attribute points
  to a \<open>TypeIdOp\<close> node over an \<open>INTEGERTNode\<close> leaf. \<open>closed_under_children W s\<close>: the
  nodes in \<open>W\<close> are allocated, and the children of an internal node in \<open>W\<close> are in \<open>W\<close>
  or the dummy node. \<open>analyse_each mk es\<close>: what the loop over the index steps does
  with the index expressions \<open>es\<close>, in their order: \<open>mk\<close> on each one that is an internal
  node. \<open>lc h p\<close>: the left child of \<open>p\<close> as \<open>LeftChild\<close> reads it in the heap \<open>h\<close>.
\<close>

primrec index_chain :: "(int \<Rightarrow> ILTree option) \<Rightarrow> int \<Rightarrow> (int \<times> int \<times> int) list \<Rightarrow> int \<Rightarrow> bool" where
  "index_chain h p [] q = (p = q)"
| "index_chain h p (x # xs) q =
     (case x of (S, I, e) \<Rightarrow>
        p = S
        \<and> (case h S of
              None \<Rightarrow> False
            | Some nd \<Rightarrow> NodeKind_f nd = EXPRNode \<and> NodeOpType nd = SelectOp \<and> LeftC nd = I
                         \<and> index_chain h (RightC nd) xs q)
        \<and> (case h I of
              None \<Rightarrow> False
            | Some ind \<Rightarrow> NodeKind_f ind = EXPRNode \<and> NodeOpType ind = IndexOp \<and> LeftC ind = e))"

definition index_at :: "(int \<Rightarrow> ILTree option) \<Rightarrow> int \<Rightarrow> int \<Rightarrow> bool" where
  "index_at h S I =
     (case h S of
        None \<Rightarrow> False
      | Some nd \<Rightarrow>
          NodeKind_f nd = EXPRNode \<and> NodeOpType nd = SelectOp \<and> LeftC nd = I
          \<and> (case h I of
                None \<Rightarrow> False
              | Some ind \<Rightarrow> NodeKind_f ind = EXPRNode \<and> NodeOpType ind = IndexOp))"

definition field_access :: "(int \<Rightarrow> ILTree option) \<Rightarrow> int \<Rightarrow> int \<Rightarrow> int \<Rightarrow> int \<Rightarrow> int \<Rightarrow> bool" where
  "field_access h S F lf fld q =
     ((case h S of
         None \<Rightarrow> False
       | Some nd \<Rightarrow> NodeKind_f nd = EXPRNode \<and> NodeOpType nd = SelectOp \<and> LeftC nd = F \<and> RightC nd = q)
      \<and> (case h F of
            None \<Rightarrow> False
          | Some fn \<Rightarrow> NodeKind_f fn = EXPRNode \<and> NodeOpType fn = FieldOp \<and> LeftC fn = lf)
      \<and> (case h lf of
            None \<Rightarrow> False
          | Some l \<Rightarrow> NodeKind_f l \<noteq> EXPRNode \<and> IntVal_f l = fld))"

definition int_array :: "state \<Rightarrow> int \<Rightarrow> int \<Rightarrow> int \<Rightarrow> bool" where
  "int_array s sy nm dim =
     (0 < sy \<and> sy \<le> st_top s \<and> st_top s < ST_SIZE
      \<and> st s sy \<noteq> 0 \<and> st s sy \<le> attr_top s \<and> IsAttr sy NAME_ATTR s = Some (st s sy)
      \<and> GetAttr sy NAME_ATTR s = Return nm s
      \<and> GetAttr sy KIND_ATTR s = Return ARR s
      \<and> GetAttr sy DIMEN_ATTR s = Return dim s
      \<and> (case GetAttr sy TYPE_ATTR s of
            Return ty s' \<Rightarrow>
              s' = s
              \<and> (case heap s ty of
                    None \<Rightarrow> False
                  | Some tn \<Rightarrow>
                      NodeKind_f tn = EXPRNode \<and> NodeOpType tn = TypeIdOp
                      \<and> (case heap s (LeftC tn) of
                            None \<Rightarrow> False
                          | Some bt \<Rightarrow> NodeKind_f bt = INTEGERTNode))
          | Exit c s' \<Rightarrow> False
          | Undefined \<Rightarrow> False
          | OutOfFuel \<Rightarrow> False))"

definition closed_under_children :: "int set \<Rightarrow> state \<Rightarrow> bool" where
  "closed_under_children W s =
     (\<forall>p\<in>W. p < brk s \<and> p \<noteq> NullExp
        \<and> (case heap s p of
              None \<Rightarrow> True
            | Some nd \<Rightarrow>
                NodeKind_f nd = EXPRNode \<longrightarrow>
                  (LeftC nd \<in> W \<or> LeftC nd = NullExp) \<and> (RightC nd \<in> W \<or> RightC nd = NullExp)))"

primrec analyse_each :: "(int \<Rightarrow> state \<Rightarrow> unit result) \<Rightarrow> int list \<Rightarrow> state \<Rightarrow> unit result" where
  "analyse_each mk [] = ret ()"
| "analyse_each mk (e # es) =
     bnd (NodeKind e) (\<lambda>k. bnd (if k = EXPRNode then mk e else ret ()) (\<lambda>_. analyse_each mk es))"

definition lc :: "(int \<Rightarrow> ILTree option) \<Rightarrow> int \<Rightarrow> int" where
  "lc h p = (case h p of None \<Rightarrow> NullExp
             | Some nd \<Rightarrow> if NodeKind_f nd = EXPRNode then LeftC nd else NullExp)"

text \<open>
  \<open>array_state\<close>: the two-dimensional int array \<open>arr\<close> (name 0, symbol 1) and the int
  variable \<open>i\<close> (name 4, symbol 2) are declared in the open scope, with the attributes in
  the cells where \<open>InsertEntry\<close> and \<open>SetAttr\<close> put them. The heap holds the type nodes (2
  to 6), the index expressions \<open>i\<close> (7, 8) and \<open>0\<close> (9), and four uses of \<open>arr\<close>:
  \<open>arr[i][0][0]\<close> at 10, \<open>arr[0]\<close> at 18, \<open>arr.length.x\<close> at 20 and \<open>arr.length\<close> at 28.
\<close>

definition array_state :: state where
  "array_state =
     \<lparr>stack = (\<lambda>_. \<lparr>marker = False, name = 0, st_ptr = 0, dummy = False, used = False\<rparr>)
        (1 := \<lparr>marker = True, name = 0, st_ptr = 0, dummy = False, used = False\<rparr>,
         2 := \<lparr>marker = False, name = 0, st_ptr = 1, dummy = False, used = False\<rparr>,
         3 := \<lparr>marker = False, name = 4, st_ptr = 2, dummy = False, used = False\<rparr>),
      st = (\<lambda>_. 0)(1 := 1, 2 := 6),
      attrarray = (\<lambda>_. \<lparr>attr_num = 0, attr_val = 0, next_attr = 0\<rparr>)
        (1 := \<lparr>attr_num = NAME_ATTR, attr_val = 0, next_attr = 2\<rparr>,
         2 := \<lparr>attr_num = NEST_ATTR, attr_val = 1, next_attr = 5\<rparr>,
         3 := \<lparr>attr_num = TYPE_ATTR, attr_val = 2, next_attr = 4\<rparr>,
         4 := \<lparr>attr_num = DIMEN_ATTR, attr_val = 2, next_attr = 0\<rparr>,
         5 := \<lparr>attr_num = KIND_ATTR, attr_val = ARR, next_attr = 3\<rparr>,
         6 := \<lparr>attr_num = NAME_ATTR, attr_val = 4, next_attr = 7\<rparr>,
         7 := \<lparr>attr_num = NEST_ATTR, attr_val = 1, next_attr = 9\<rparr>,
         8 := \<lparr>attr_num = TYPE_ATTR, attr_val = 6, next_attr = 0\<rparr>,
         9 := \<lparr>attr_num = KIND_ATTR, attr_val = VAR, next_attr = 8\<rparr>),
      stack_top = 3, st_top = 2, nesting = 1, attr_top = 9,
      heap = (\<lambda>_. None)
        (NullExp := Some dummy_node,
         2 := Some \<lparr>NodeKind_f = EXPRNode, NodeOpType = TypeIdOp, IntVal_f = 0, LeftC = 3, RightC = 4\<rparr>,
         3 := Some \<lparr>NodeKind_f = INTEGERTNode, NodeOpType = 0, IntVal_f = 0, LeftC = NullExp, RightC = NullExp\<rparr>,
         4 := Some \<lparr>NodeKind_f = EXPRNode, NodeOpType = IndexOp, IntVal_f = 0, LeftC = NullExp, RightC = 5\<rparr>,
         5 := Some \<lparr>NodeKind_f = EXPRNode, NodeOpType = IndexOp, IntVal_f = 0, LeftC = NullExp, RightC = NullExp\<rparr>,
         6 := Some \<lparr>NodeKind_f = EXPRNode, NodeOpType = TypeIdOp, IntVal_f = 0, LeftC = 3, RightC = NullExp\<rparr>,
         7 := Some \<lparr>NodeKind_f = EXPRNode, NodeOpType = VarOp, IntVal_f = 0, LeftC = 8, RightC = NullExp\<rparr>,
         8 := Some \<lparr>NodeKind_f = IDNode, NodeOpType = 0, IntVal_f = 4, LeftC = NullExp, RightC = NullExp\<rparr>,
         9 := Some \<lparr>NodeKind_f = NUMNode, NodeOpType = 0, IntVal_f = 0, LeftC = NullExp, RightC = NullExp\<rparr>,
         10 := Some \<lparr>NodeKind_f = EXPRNode, NodeOpType = VarOp, IntVal_f = 0, LeftC = 11, RightC = 12\<rparr>,
         11 := Some \<lparr>NodeKind_f = IDNode, NodeOpType = 0, IntVal_f = 0, LeftC = NullExp, RightC = NullExp\<rparr>,
         12 := Some \<lparr>NodeKind_f = EXPRNode, NodeOpType = SelectOp, IntVal_f = 0, LeftC = 13, RightC = 14\<rparr>,
         13 := Some \<lparr>NodeKind_f = EXPRNode, NodeOpType = IndexOp, IntVal_f = 0, LeftC = 7, RightC = NullExp\<rparr>,
         14 := Some \<lparr>NodeKind_f = EXPRNode, NodeOpType = SelectOp, IntVal_f = 0, LeftC = 15, RightC = 16\<rparr>,
         15 := Some \<lparr>NodeKind_f = EXPRNode, NodeOpType = IndexOp, IntVal_f = 0, LeftC = 9, RightC = NullExp\<rparr>,
         16 := Some \<lparr>NodeKind_f = EXPRNode, NodeOpType = SelectOp, IntVal_f = 0, LeftC = 17, RightC = NullExp\<rparr>,
         17 := Some \<lparr>NodeKind_f = EXPRNode, NodeOpType = IndexOp, IntVal_f = 0, LeftC = 9, RightC = NullExp\<rparr>,
         18 := Some \<lparr>NodeKind_f = EXPRNode, NodeOpType = VarOp, IntVal_f = 0, LeftC = 19, RightC = 16\<rparr>,
         19 := Some \<lparr>NodeKind_f = IDNode, NodeOpType = 0, IntVal_f = 0, LeftC = NullExp, RightC = NullExp\<rparr>,
         20 := Some \<lparr>NodeKind_f = EXPRNode, NodeOpType = VarOp, IntVal_f = 0, LeftC = 21, RightC = 22\<rparr>,
         21 := Some \<lparr>NodeKind_f = IDNode, NodeOpType = 0, IntVal_f = 0, LeftC = NullExp, RightC = NullExp\<rparr>,
         22 := Some \<lparr>NodeKind_f = EXPRNode, NodeOpType = SelectOp, IntVal_f = 0, LeftC = 23, RightC = 25\<rparr>,
         23 := Some \<lparr>NodeKind_f = EXPRNode, NodeOpType = FieldOp, IntVal_f = 0, LeftC = 24, RightC = NullExp\<rparr>,
         24 := Some \<lparr>NodeKind_f = IDNode, NodeOpType = 0, IntVal_f = 6, LeftC = NullExp, RightC = NullExp\<rparr>,
         25 := Some \<lparr>NodeKind_f = EXPRNode, NodeOpType = SelectOp, IntVal_f = 0, LeftC = 26, RightC = NullExp\<rparr>,
         26 := Some \<lparr>NodeKind_f = EXPRNode, NodeOpType = FieldOp, IntVal_f = 0, LeftC = 27, RightC = NullExp\<rparr>,
         27 := Some \<lparr>NodeKind_f = IDNode, NodeOpType = 0, IntVal_f = 13, LeftC = NullExp, RightC = NullExp\<rparr>,
         28 := Some \<lparr>NodeKind_f = EXPRNode, NodeOpType = VarOp, IntVal_f = 0, LeftC = 29, RightC = 30\<rparr>,
         29 := Some \<lparr>NodeKind_f = IDNode, NodeOpType = 0, IntVal_f = 0, LeftC = NullExp, RightC = NullExp\<rparr>,
         30 := Some \<lparr>NodeKind_f = EXPRNode, NodeOpType = SelectOp, IntVal_f = 0, LeftC = 31, RightC = NullExp\<rparr>,
         31 := Some \<lparr>NodeKind_f = EXPRNode, NodeOpType = FieldOp, IntVal_f = 0, LeftC = 24, RightC = NullExp\<rparr>),
      brk = 32, strg_tbl = [''arr'', ''i'', ''length'', ''x''], out = []\<rparr>"

section \<open>Basic facts\<close>

text \<open>
  Evaluation goes in program order: the state is simplified first, then the first
  computation of a \<open>bnd\<close> is run on it, and only then its continuation.
\<close>

lemma bnd_weak_cong [cong]: "s = t \<Longrightarrow> bnd f g s = bnd f g t"
  by simp

lemma bnd_Return [simp]: "f s = Return x s' \<Longrightarrow> bnd f g s = g x s'"
  by (simp add: bnd_def)

lemma bnd_Exit [simp]: "f s = Exit c s' \<Longrightarrow> bnd f g s = Exit c s'"
  by (simp add: bnd_def)

lemma bnd_Undefined [simp]: "f s = Undefined \<Longrightarrow> bnd f g s = Undefined"
  by (simp add: bnd_def)

lemma bnd_OutOfFuel [simp]: "f s = OutOfFuel \<Longrightarrow> bnd f g s = OutOfFuel"
  by (simp add: bnd_def)

lemma bnd_assoc: "bnd (bnd f g) h s = bnd f (\<lambda>x. bnd (g x) h) s"
  by (simp add: bnd_def split: result.splits)

lemma ret_Return [simp]: "ret x s = Return x s"
  by (simp add: ret_def)

lemma bnd_ret [simp]: "bnd (ret x) g s = g x s"
  by (simp add: bnd_def)

lemma bnd_printf [simp]: "bnd (printf ev) g s = g () (s\<lparr>out := out s @ [ev]\<rparr>)"
  by (simp add: bnd_def printf_def)

lemma pure_of_Some [simp]: "f s = Some x \<Longrightarrow> pure_of f s = Return x s"
  by (simp add: pure_of_def)

lemma pure_of_None [simp]: "f s = None \<Longrightarrow> pure_of f s = Undefined"
  by (simp add: pure_of_def)

lemma error_msg_CONTINUE [simp]:
  "error_msg type CONTINUE ident seq s = Return () (s\<lparr>out := out s @ [Semantic_Error type ident seq]\<rparr>)"
  by (simp add: error_msg_def)

lemma error_msg_ABORT [simp]:
  "error_msg type ABORT ident seq s = Exit 0 (s\<lparr>out := out s @ [Semantic_Error type ident seq]\<rparr>)"
  by (simp add: error_msg_def)

lemma LookUpHere_out [simp]: "LookUpHere ident (s\<lparr>out := x\<rparr>) = LookUpHere ident s"
  by (simp add: LookUpHere_def)

text \<open>The definitions that evaluate the symbol-table routines on a concrete state.\<close>

lemmas symtab_eval =
  LookUpHere_scan.simps LookUp_scan.simps CloseBlock_scan.simps IsAttr_loop.simps
  SetAttr_find.simps LookUpHere_def IsAttr_def SetAttr_def InsertEntry_def OpenBlock_def
  CloseBlock_def Push_def LookUp_def GetAttr_def store_link_def to_char_def bnd_def pure_of_def

lemma one_symbol_state_reached:
  "bnd OpenBlock (\<lambda>_. InsertEntry 7) (init_state []) = Return 1 one_symbol_state"
  by (simp add: symtab_eval init_state_def one_symbol_state_def)

section \<open>The error reporter\<close>

text \<open>
  C3 (first half, as the code has it). With the action \<open>ABORT\<close> the reporter prints the
  diagnostic and ends the process, and the status it passes to \<open>exit\<close> is 0.
\<close>

theorem error_msg_abort_exit_status:
  "error_msg type ABORT ident seq s = Exit 0 (s\<lparr>out := out s @ [Semantic_Error type ident seq]\<rparr>)"
  by (simp add: error_msg_def)

section \<open>Lookup through all scopes\<close>


lemma LookUp_scan_None:
  "LookUp_scan stk ident n = None \<longleftrightarrow>
     (\<forall>i. 0 < i \<and> i \<le> n \<longrightarrow> marker (stk i) \<or> name (stk i) \<noteq> ident)"
proof (induction stk ident n rule: LookUp_scan.induct)
  case (1 stk ident i)
  show ?case
  proof (cases "0 < i \<and> \<not> (\<not> marker (stk i) \<and> name (stk i) = ident)")
    case True
    then have "LookUp_scan stk ident i = LookUp_scan stk ident (i - 1)"
      by (subst LookUp_scan.simps) auto
    moreover have "(\<forall>j. 0 < j \<and> j \<le> i \<longrightarrow> marker (stk j) \<or> name (stk j) \<noteq> ident)
      \<longleftrightarrow> (\<forall>j. 0 < j \<and> j \<le> i - 1 \<longrightarrow> marker (stk j) \<or> name (stk j) \<noteq> ident)"
    proof
      assume l: "\<forall>j. 0 < j \<and> j \<le> i \<longrightarrow> marker (stk j) \<or> name (stk j) \<noteq> ident"
      show "\<forall>j. 0 < j \<and> j \<le> i - 1 \<longrightarrow> marker (stk j) \<or> name (stk j) \<noteq> ident"
        using l by auto
    next
      assume r: "\<forall>j. 0 < j \<and> j \<le> i - 1 \<longrightarrow> marker (stk j) \<or> name (stk j) \<noteq> ident"
      have "\<And>j. 0 < j \<and> j \<le> i \<Longrightarrow> marker (stk j) \<or> name (stk j) \<noteq> ident"
      proof -
        fix j assume "0 < j \<and> j \<le> i"
        then show "marker (stk j) \<or> name (stk j) \<noteq> ident"
          using r True by (cases "j = i") auto
      qed
      then show "\<forall>j. 0 < j \<and> j \<le> i \<longrightarrow> marker (stk j) \<or> name (stk j) \<noteq> ident"
        by blast
    qed
    ultimately show ?thesis using 1 True by simp
  next
    case False
    then show ?thesis by (subst LookUp_scan.simps) auto
  qed
qed

lemma LookUp_scan_Some:
  "LookUp_scan stk ident n = Some i \<longleftrightarrow>
     (0 < i \<and> i \<le> n \<and> \<not> marker (stk i) \<and> name (stk i) = ident
      \<and> (\<forall>j. i < j \<and> j \<le> n \<longrightarrow> marker (stk j) \<or> name (stk j) \<noteq> ident))"
proof (induction stk ident n rule: LookUp_scan.induct)
  case (1 stk ident n)
  show ?case
  proof (cases "0 < n")
    case False
    then show ?thesis by (subst LookUp_scan.simps) auto
  next
    case pos: True
    show ?thesis
    proof (cases "\<not> marker (stk n) \<and> name (stk n) = ident")
      case True
      then have "LookUp_scan stk ident n = Some n"
        using pos by (subst LookUp_scan.simps) auto
      moreover have "(0 < i \<and> i \<le> n \<and> \<not> marker (stk i) \<and> name (stk i) = ident
      \<and> (\<forall>j. i < j \<and> j \<le> n \<longrightarrow> marker (stk j) \<or> name (stk j) \<noteq> ident)) \<longleftrightarrow> i = n"
        using True pos by (auto simp: order_less_le)
      ultimately show ?thesis by auto
    next
      case False
      then have eq: "LookUp_scan stk ident n = LookUp_scan stk ident (n - 1)"
        using pos by (subst LookUp_scan.simps) auto
      have "(0 < i \<and> i \<le> n \<and> \<not> marker (stk i) \<and> name (stk i) = ident
      \<and> (\<forall>j. i < j \<and> j \<le> n \<longrightarrow> marker (stk j) \<or> name (stk j) \<noteq> ident)) \<longleftrightarrow>
         (0 < i \<and> i \<le> n - 1 \<and> \<not> marker (stk i) \<and> name (stk i) = ident
      \<and> (\<forall>j. i < j \<and> j \<le> n - 1 \<longrightarrow> marker (stk j) \<or> name (stk j) \<noteq> ident))"
        (is "?L \<longleftrightarrow> ?R")
      proof
        assume l: ?L
        then have "i \<noteq> n" using False by auto
        with l show ?R by auto
      next
        assume r: ?R
        have "\<And>j. i < j \<and> j \<le> n \<Longrightarrow> marker (stk j) \<or> name (stk j) \<noteq> ident"
        proof -
          fix j assume "i < j \<and> j \<le> n"
          then show "marker (stk j) \<or> name (stk j) \<noteq> ident"
            using r False by (cases "j = n") auto
        qed
        with r show ?L by auto
      qed
      with eq 1 pos False show ?thesis by simp
    qed
  qed
qed


lemma undeclared_state_reached:
  "bnd OpenBlock (\<lambda>_. LookUp 7) (init_state []) = Return 0 undeclared_state"
  by (simp add: symtab_eval init_state_def undeclared_state_def)

text \<open>
  C2, as the claim states it, fails on a name whose only frame is a dummy one: in the state
  reached by \<open>OpenBlock(); LookUp(7)\<close> from program start, frame 1 is the marker and
  frame 2 the dummy frame of the undeclared name 7. A second \<open>LookUp(7)\<close> matches the
  dummy frame: it returns 0, sets the frame's \<open>used\<close> flag, prints nothing and pushes
  nothing.
\<close>

theorem LookUp_matches_dummy_frame:
  "stack_top undeclared_state = 2
   \<and> marker (stack undeclared_state 1)
   \<and> dummy (stack undeclared_state 2)
   \<and> LookUp 7 undeclared_state
       = Return 0 (undeclared_state\<lparr>stack := (stack undeclared_state)
            (2 := \<lparr>marker = False, name = 7, st_ptr = 0, dummy = True, used = True\<rparr>)\<rparr>)"
  by (simp add: symtab_eval undeclared_state_def)

text \<open>
  C2, amended. \<open>LookUp\<close> scans the frames \<open>stack_top, ..., 1\<close> and matches the first
  frame that is not a marker and has the name, dummy or not: it sets that frame's
  \<open>used\<close> flag and returns its \<open>st_ptr\<close> (0 for a dummy frame); this needs no room
  on the stack and holds on a full stack as well. When no frame that is not a marker has
  the name, it prints the Undeclared diagnostic; then, if the stack has room, it pushes
  the dummy frame \<open>(name, 0, dummy, not used)\<close> and returns 0, and if the stack is full
  (\<open>stack_top = STACK_SIZE - 1\<close>) \<open>Push\<close> prints the stack-overflow diagnostic and ends
  the process.
\<close>

theorem LookUp_any_non_marker_frame:
  "(\<forall>i. stack_top s < STACK_SIZE
         \<and> 0 < i \<and> i \<le> stack_top s \<and> \<not> marker (stack s i) \<and> name (stack s i) = ident
         \<and> (\<forall>j. i < j \<and> j \<le> stack_top s \<longrightarrow> marker (stack s j) \<or> name (stack s j) \<noteq> ident)
       \<longrightarrow> LookUp ident s
           = Return (st_ptr (stack s i)) (s\<lparr>stack := (stack s)(i := (stack s i)\<lparr>used := True\<rparr>)\<rparr>))
   \<and> ((\<forall>i. 0 < i \<and> i \<le> stack_top s \<longrightarrow> marker (stack s i) \<or> name (stack s i) \<noteq> ident)
        \<and> - 1 \<le> stack_top s \<and> stack_top s < STACK_SIZE - 1
       \<longrightarrow> LookUp ident s
           = Return 0 (s\<lparr>out := out s @ [Semantic_Error UNDECLARATION ident 0],
                        stack_top := stack_top s + 1,
                        stack := (stack s)(stack_top s + 1 :=
                          \<lparr>marker = False, name = ident, st_ptr = 0, dummy = True, used = False\<rparr>)\<rparr>))
   \<and> ((\<forall>i. 0 < i \<and> i \<le> stack_top s \<longrightarrow> marker (stack s i) \<or> name (stack s i) \<noteq> ident)
        \<and> stack_top s = STACK_SIZE - 1
       \<longrightarrow> LookUp ident s
           = Exit 0 (s\<lparr>out := out s @ [Semantic_Error UNDECLARATION ident 0,
                                        Semantic_Error STACK_OVERFLOW 0 0]\<rparr>))"
proof (intro conjI allI impI)
  fix i
  assume a: "stack_top s < STACK_SIZE
         \<and> 0 < i \<and> i \<le> stack_top s \<and> \<not> marker (stack s i) \<and> name (stack s i) = ident
         \<and> (\<forall>j. i < j \<and> j \<le> stack_top s \<longrightarrow> marker (stack s j) \<or> name (stack s j) \<noteq> ident)"
  then have "LookUp_scan (stack s) ident (stack_top s) = Some i"
    by (simp add: LookUp_scan_Some)
  then show "LookUp ident s
              = Return (st_ptr (stack s i)) (s\<lparr>stack := (stack s)(i := (stack s i)\<lparr>used := True\<rparr>)\<rparr>)"
    using a by (simp add: LookUp_def)
next
  assume a: "(\<forall>i. 0 < i \<and> i \<le> stack_top s \<longrightarrow> marker (stack s i) \<or> name (stack s i) \<noteq> ident)
        \<and> - 1 \<le> stack_top s \<and> stack_top s < STACK_SIZE - 1"
  then have "LookUp_scan (stack s) ident (stack_top s) = None"
    by (simp add: LookUp_scan_None)
  then show "LookUp ident s
              = Return 0 (s\<lparr>out := out s @ [Semantic_Error UNDECLARATION ident 0],
                           stack_top := stack_top s + 1,
                           stack := (stack s)(stack_top s + 1 :=
                             \<lparr>marker = False, name = ident, st_ptr = 0, dummy = True, used = False\<rparr>)\<rparr>)"
    using a by (simp add: LookUp_def Push_def bnd_def Let_def)
next
  assume a: "(\<forall>i. 0 < i \<and> i \<le> stack_top s \<longrightarrow> marker (stack s i) \<or> name (stack s i) \<noteq> ident)
        \<and> stack_top s = STACK_SIZE - 1"
  then have "LookUp_scan (stack s) ident (stack_top s) = None"
    by (simp add: LookUp_scan_None)
  then show "LookUp ident s
           = Exit 0 (s\<lparr>out := out s @ [Semantic_Error UNDECLARATION ident 0,
                                        Semantic_Error STACK_OVERFLOW 0 0]\<rparr>)"
    using a by (simp add: LookUp_def Push_def bnd_def Let_def)
qed

section \<open>Redeclaration leaves the state alone\<close>

text \<open>
  C10. When the name is already bound in the current scope (\<open>LookUpHere\<close> returns a
  symbol that is not 0), \<open>InsertEntry\<close> prints the redeclaration diagnostic and returns 0;
  the symbol table, the stack, the attribute pool, the four counters and the tree nodes
  are what they were: the only change of the state is the printed line.
\<close>

theorem InsertEntry_redeclaration_unchanged:
  assumes "LookUpHere ident s = Some here" and "here \<noteq> 0"
  shows "InsertEntry ident s
           = Return 0 (s\<lparr>out := out s @ [Semantic_Error REDECLARATION ident 0]\<rparr>)"
  using assms by (simp add: InsertEntry_def)

theorem InsertEntry_redeclaration_unchanged_witness:
  "LookUpHere 7 one_symbol_state = Some 1 \<and> (1::int) \<noteq> 0
   \<and> InsertEntry 7 one_symbol_state
       = Return 0 (one_symbol_state\<lparr>out := out one_symbol_state @ [Semantic_Error REDECLARATION 7 0]\<rparr>)"
proof -
  have h: "LookUpHere 7 one_symbol_state = Some 1"
    by (simp add: LookUpHere_def LookUpHere_scan.simps one_symbol_state_def)
  from InsertEntry_redeclaration_unchanged [OF h] h show ?thesis by simp
qed

section \<open>Inserting a symbol\<close>

lemma IsAttr_loop_0 [simp]: "IsAttr_loop A k 0 = Some 0"
  by (subst IsAttr_loop.simps) simp

lemma SetAttr_find_0 [simp]: "SetAttr_find A k p 0 = Some (p, 0)"
  by (subst SetAttr_find.simps) simp

lemma IsAttr_loop_hit: "0 < i \<Longrightarrow> i < ATTR_SIZE \<Longrightarrow> attr_num (A i) = k \<Longrightarrow> IsAttr_loop A k i = Some i"
  by (subst IsAttr_loop.simps) simp

lemma IsAttr_loop_past: "0 < i \<Longrightarrow> i < ATTR_SIZE \<Longrightarrow> k < attr_num (A i) \<Longrightarrow> IsAttr_loop A k i = Some 0"
  by (subst IsAttr_loop.simps) simp

lemma IsAttr_loop_next:
  "0 < i \<Longrightarrow> i < ATTR_SIZE \<Longrightarrow> attr_num (A i) < k \<Longrightarrow> IsAttr_loop A k i = IsAttr_loop A k (next_attr (A i))"
  by (subst IsAttr_loop.simps) simp

lemma SetAttr_find_next:
  "0 < i \<Longrightarrow> i < ATTR_SIZE \<Longrightarrow> attr_num (A i) < k 
   \<Longrightarrow> SetAttr_find A k p i = SetAttr_find A k (At_next i) (next_attr (A i))"
  by (subst SetAttr_find.simps) simp

lemma SetAttr_find_stop:
  "0 < i \<Longrightarrow> i < ATTR_SIZE \<Longrightarrow> \<not> attr_num (A i) < k \<Longrightarrow> SetAttr_find A k p i = Some (p, i)"
  by (subst SetAttr_find.simps) simp

lemma InsertEntry_new:
  assumes "LookUpHere ident s = Some 0"
    and "0 \<le> st_top s" "st_top s < ST_SIZE - 1"
    and "0 \<le> attr_top s" "attr_top s < ATTR_SIZE - 2"
    and "- 1 \<le> stack_top s" "stack_top s < STACK_SIZE - 1"
  shows "InsertEntry ident s = Return (st_top s + 1) (inserted ident s)"
proof -
  let ?top = "st_top s + 1"
  let ?s1 = "s\<lparr>st_top := ?top, st := (st s)(?top := 0)\<rparr>"
  let ?c1 = "attr_top s + 1"
  let ?s2 = "?s1\<lparr>attr_top := ?c1, attrarray := (attrarray s)(?c1 := \<lparr>attr_num = NAME_ATTR, attr_val = ident, next_attr = 0\<rparr>),
                st := (st s)(?top := ?c1)\<rparr>"
  have a1: "SetAttr ?top NAME_ATTR ident ?s1 = Return () ?s2"
    using assms by (simp add: SetAttr_def IsAttr_def bnd_def pure_of_def store_link_def to_char_def Let_def)
  let ?c2 = "attr_top s + 2"
  let ?s3 = "?s2\<lparr>attr_top := ?c2, attrarray := (attrarray ?s2)(?c2 := \<lparr>attr_num = NEST_ATTR, attr_val = nesting s, next_attr = 0\<rparr>,
                 ?c1 := \<lparr>attr_num = NAME_ATTR, attr_val = ident, next_attr = ?c2\<rparr>)\<rparr>"
  have i2: "IsAttr ?top NEST_ATTR ?s2 = Some 0"
    using assms by (simp add: IsAttr_def IsAttr_loop_next)
  have f2: "SetAttr_find (attrarray ?s2) NEST_ATTR (At_st ?top) (st ?s2 ?top) = Some (At_next ?c1, 0)"
    using assms by (simp add: SetAttr_find_next)
  have a2: "SetAttr ?top NEST_ATTR (nesting ?s2) ?s2 = Return () ?s3"
    using assms i2 f2 by (simp add: SetAttr_def bnd_def pure_of_def store_link_def to_char_def Let_def add.commute)
  have s3: "Push False ident ?top False ?s3 = Return () (inserted ident s)"
    using assms by (simp add: Push_def bnd_def inserted_def fun_upd_twist Let_def)
  show ?thesis
    using assms a1 a2 s3 by (simp add: InsertEntry_def bnd_def Let_def)
qed

lemma LookUpHere_marker_on_top:
  "0 \<le> stack_top s \<Longrightarrow> stack_top s < STACK_SIZE \<Longrightarrow> marker (stack s (stack_top s))
   \<Longrightarrow> LookUpHere ident s = Some 0"
  by (simp add: LookUpHere_def LookUpHere_scan.simps)

lemma OpenBlock_room:
  "- 1 \<le> stack_top s \<Longrightarrow> stack_top s < STACK_SIZE - 1 \<Longrightarrow>
   OpenBlock s = Return () (s\<lparr>nesting := nesting s + 1, stack_top := stack_top s + 1,
      stack := (stack s)(stack_top s + 1 :=
        \<lparr>marker = True, name = 0, st_ptr = 0, dummy = False, used = False\<rparr>)\<rparr>)"
  by (simp add: OpenBlock_def Push_def bnd_def Let_def)

lemma open_blocks_state_0: "open_blocks_state 0 = init_state []"
proof -
  have "(\<lambda>i::int. if 1 \<le> i \<and> i \<le> 0
          then \<lparr>marker = True, name = 0, st_ptr = 0, dummy = False, used = False\<rparr>
          else \<lparr>marker = False, name = 0, st_ptr = 0, dummy = False, used = False\<rparr>)
     = (\<lambda>_. \<lparr>marker = False, name = 0, st_ptr = 0, dummy = False, used = False\<rparr>)"
    by (rule ext) auto
  then show ?thesis by (simp add: open_blocks_state_def init_state_def)
qed

lemma open_blocks_state_step:
  assumes "0 \<le> n" "n < 99"
  shows "OpenBlock (open_blocks_state n) = Return () (open_blocks_state (n + 1))"
proof -
  have "(\<lambda>i. if 1 \<le> i \<and> i \<le> n
          then \<lparr>marker = True, name = 0, st_ptr = 0, dummy = False, used = False\<rparr>
          else \<lparr>marker = False, name = 0, st_ptr = 0, dummy = False, used = False\<rparr>)
       (n + 1 := \<lparr>marker = True, name = 0, st_ptr = 0, dummy = False, used = False\<rparr>)
     = (\<lambda>i. if 1 \<le> i \<and> i \<le> n + 1
          then \<lparr>marker = True, name = 0, st_ptr = 0, dummy = False, used = False\<rparr>
          else \<lparr>marker = False, name = 0, st_ptr = 0, dummy = False, used = False\<rparr>)"
    using assms by (intro ext) auto
  with assms show ?thesis
    by (simp add: OpenBlock_room open_blocks_state_def init_state_def)
qed

lemma open_blocks_reach:
  "n \<le> 99 \<Longrightarrow> repeat n OpenBlock (init_state []) = Return () (open_blocks_state (int n))"
proof (induction n)
  case 0
  then show ?case by (simp add: open_blocks_state_0)
next
  case (Suc n)
  then have IH: "repeat n OpenBlock (init_state []) = Return () (open_blocks_state (int n))"
    by simp
  have "repeat (Suc n) OpenBlock (init_state []) = OpenBlock (open_blocks_state (int n))"
    by (simp add: IH)
  also have "\<dots> = Return () (open_blocks_state (int n + 1))"
    using Suc.prems by (intro open_blocks_state_step) auto
  finally show ?case by (simp add: add.commute)
qed

lemma full_stack_state_reached:
  "repeat 99 OpenBlock (init_state []) = Return () full_stack_state"
  using open_blocks_reach [of 99] by (simp add: full_stack_state_def open_blocks_state_def)

lemma full_scope_state_reached:
  "bnd (repeat 98 OpenBlock) (\<lambda>_. InsertEntry 7) (init_state [])
   = Return 1 (inserted 7 (open_blocks_state 98))"
proof -
  have r: "repeat 98 OpenBlock (init_state []) = Return () (open_blocks_state 98)"
    using open_blocks_reach [of 98] by simp
  have f: "st_top (open_blocks_state 98) = 0" "attr_top (open_blocks_state 98) = 0"
    "stack_top (open_blocks_state 98) = 98" "marker (stack (open_blocks_state 98) 98)"
    by (simp_all add: open_blocks_state_def init_state_def)
  then have "LookUpHere 7 (open_blocks_state 98) = Some 0"
    by (intro LookUpHere_marker_on_top) simp_all
  then have "InsertEntry 7 (open_blocks_state 98) = Return 1 (inserted 7 (open_blocks_state 98))"
    using f InsertEntry_new [of 7 "open_blocks_state 98"] by simp
  with r show ?thesis by simp
qed

theorem LookUp_any_non_marker_frame_witness:
  "LookUp 7 undeclared_state
       = Return 0 (undeclared_state\<lparr>stack := (stack undeclared_state)
            (2 := (stack undeclared_state 2)\<lparr>used := True\<rparr>)\<rparr>)
   \<and> LookUp 8 undeclared_state
       = Return 0 (undeclared_state\<lparr>out := out undeclared_state @ [Semantic_Error UNDECLARATION 8 0],
            stack_top := 3,
            stack := (stack undeclared_state)
              (3 := \<lparr>marker = False, name = 8, st_ptr = 0, dummy = True, used = False\<rparr>)\<rparr>)
   \<and> stack_top (inserted 7 (open_blocks_state 98)) = STACK_SIZE - 1
   \<and> LookUp 7 (inserted 7 (open_blocks_state 98))
       = Return 1 ((inserted 7 (open_blocks_state 98))\<lparr>stack := (stack (inserted 7 (open_blocks_state 98)))
            (99 := \<lparr>marker = False, name = 7, st_ptr = 1, dummy = False, used = True\<rparr>)\<rparr>)
   \<and> LookUp 8 (inserted 7 (open_blocks_state 98))
       = Exit 0 ((inserted 7 (open_blocks_state 98))\<lparr>out :=
            [Semantic_Error UNDECLARATION 8 0, Semantic_Error STACK_OVERFLOW 0 0]\<rparr>)"
proof -
  let ?u = undeclared_state and ?f = "inserted 7 (open_blocks_state 98)"
  have a: "LookUp 7 ?u
       = Return 0 (?u\<lparr>stack := (stack ?u)(2 := (stack ?u 2)\<lparr>used := True\<rparr>)\<rparr>)"
    using LookUp_any_non_marker_frame [of ?u 7, THEN conjunct1, THEN spec, of 2]
    by (auto simp: undeclared_state_def)
  have b: "LookUp 8 ?u
       = Return 0 (?u\<lparr>out := out ?u @ [Semantic_Error UNDECLARATION 8 0],
            stack_top := 3,
            stack := (stack ?u)
              (3 := \<lparr>marker = False, name = 8, st_ptr = 0, dummy = True, used = False\<rparr>)\<rparr>)"
    using LookUp_any_non_marker_frame [of ?u 8, THEN conjunct2, THEN conjunct1]
    by (auto simp: undeclared_state_def)
  have f: "stack_top ?f = 99" "st_top (open_blocks_state 98) = 0" "out ?f = []"
    "stack ?f 99 = \<lparr>marker = False, name = 7, st_ptr = 1, dummy = False, used = False\<rparr>"
    by (simp_all add: open_blocks_state_def init_state_def inserted_def)
  have m: "\<forall>i. 0 < i \<and> i \<le> stack_top ?f \<longrightarrow> marker (stack ?f i) \<or> name (stack ?f i) \<noteq> 8"
    by (auto simp: open_blocks_state_def init_state_def inserted_def)
  have c: "LookUp 7 ?f
       = Return 1 (?f\<lparr>stack := (stack ?f)
            (99 := \<lparr>marker = False, name = 7, st_ptr = 1, dummy = False, used = True\<rparr>)\<rparr>)"
    using LookUp_any_non_marker_frame [of ?f 7, THEN conjunct1, THEN spec, of 99] f
    by auto
  have d: "LookUp 8 ?f
       = Exit 0 (?f\<lparr>out := [Semantic_Error UNDECLARATION 8 0, Semantic_Error STACK_OVERFLOW 0 0]\<rparr>)"
    using LookUp_any_non_marker_frame [of ?f 8, THEN conjunct2, THEN conjunct2] f m
    by auto
  from a b c d f(1) show ?thesis by simp
qed


lemma inserted_fields [simp]:
  "st_top (inserted ident s) = st_top s + 1"
  "attr_top (inserted ident s) = attr_top s + 2"
  "stack_top (inserted ident s) = stack_top s + 1"
  "nesting (inserted ident s) = nesting s"
  "out (inserted ident s) = out s"
  "stack (inserted ident s) (stack_top s + 1)
     = \<lparr>marker = False, name = ident, st_ptr = st_top s + 1, dummy = False, used = False\<rparr>"
  "i \<noteq> stack_top s + 1 \<Longrightarrow> stack (inserted ident s) i = stack s i"
  by (simp_all add: inserted_def)



lemma declare_in_scope_ok:
  assumes "0 \<le> st_top s" "st_top s < ST_SIZE - 1" "0 \<le> attr_top s" "attr_top s < ATTR_SIZE - 2"
    and "0 \<le> stack_top s" "stack_top s < STACK_SIZE - 2"
  shows "\<exists>s'. declare_in_scope ident s = Return () s' \<and> st_top s' = st_top s + 1
     \<and> attr_top s' = attr_top s + 2 \<and> stack_top s' = stack_top s \<and> nesting s' = nesting s
     \<and> out s' = out s"
proof -
  let ?s1 = "s\<lparr>nesting := nesting s + 1, stack_top := stack_top s + 1,
      stack := (stack s)(stack_top s + 1 :=
        \<lparr>marker = True, name = 0, st_ptr = 0, dummy = False, used = False\<rparr>)\<rparr>"
  have o: "OpenBlock s = Return () ?s1"
    using assms by (simp add: OpenBlock_room)
  have l: "LookUpHere ident ?s1 = Some 0"
    using assms by (intro LookUpHere_marker_on_top) auto
  have i: "InsertEntry ident ?s1 = Return (st_top ?s1 + 1) (inserted ident ?s1)"
    using assms l by (intro InsertEntry_new) auto
  have c: "CloseBlock_scan (stack (inserted ident ?s1)) (stack_top (inserted ident ?s1)) = Some (stack_top s + 1)"
    using assms by (simp add: CloseBlock_scan.simps inserted_def)
  have "declare_in_scope ident s
      = Return () ((inserted ident ?s1)\<lparr>nesting := nesting s, stack_top := stack_top s\<rparr>)"
    using o i c by (simp add: declare_in_scope_def CloseBlock_def bnd_def)
  then show ?thesis by simp
qed

lemma declare_repeatedly:
  "n \<le> 499 \<Longrightarrow> \<exists>s. repeat n (declare_in_scope 7) (init_state []) = Return () s
     \<and> st_top s = int n \<and> attr_top s = 2 * int n \<and> stack_top s = 0 \<and> nesting s = 0 \<and> out s = []"
proof (induction n)
  case 0
  then show ?case by (simp add: init_state_def)
next
  case (Suc n)
  then obtain s where s: "repeat n (declare_in_scope 7) (init_state []) = Return () s"
     "st_top s = int n" "attr_top s = 2 * int n" "stack_top s = 0" "nesting s = 0" "out s = []"
    by auto
  have "\<exists>s'. declare_in_scope 7 s = Return () s' \<and> st_top s' = st_top s + 1
     \<and> attr_top s' = attr_top s + 2 \<and> stack_top s' = stack_top s \<and> nesting s' = nesting s
     \<and> out s' = out s"
    using s Suc.prems by (intro declare_in_scope_ok) auto
  then obtain s' where "declare_in_scope 7 s = Return () s'" "st_top s' = st_top s + 1"
     "attr_top s' = attr_top s + 2" "stack_top s' = stack_top s" "nesting s' = nesting s"
     "out s' = out s"
    by blast
  with s show ?case by simp
qed

text \<open>
  C4. The code takes the overflow branch one symbol early. \<open>ST_SIZE\<close>, 500, is documented
  in symbol\_table.h as the maximum number of entries of the symbol table, and the claim
  expects 500 insertions to succeed and the 501st to abort. The guard of \<open>InsertEntry\<close> is
  \<open>st_top >= ST_SIZE - 1\<close>: from program start, 499 declarations (each in a scope of its
  own, so that neither the stack nor the pool fills up) return and print nothing, and the
  500th ends the process in \<open>InsertEntry\<close> with the symbol-table overflow diagnostic.
\<close>

theorem symbol_500_overflows:
  "returned (repeat 499 (declare_in_scope 7) (init_state []))
   \<and> printed (repeat 499 (declare_in_scope 7) (init_state [])) = []
   \<and> exit_status (repeat 500 (declare_in_scope 7) (init_state [])) = Some 0
   \<and> printed (repeat 500 (declare_in_scope 7) (init_state [])) = [Semantic_Error ST_OVERFLOW 0 0]"
proof -
  obtain s where s: "repeat 499 (declare_in_scope 7) (init_state []) = Return () s"
     "st_top s = 499" "attr_top s = 998" "stack_top s = 0" "nesting s = 0" "out s = []"
    using declare_repeatedly [of 499] by auto
  let ?s1 = "s\<lparr>nesting := nesting s + 1, stack_top := stack_top s + 1,
      stack := (stack s)(stack_top s + 1 :=
        \<lparr>marker = True, name = 0, st_ptr = 0, dummy = False, used = False\<rparr>)\<rparr>"
  have o: "OpenBlock s = Return () ?s1"
    using s by (simp add: OpenBlock_room)
  have l: "LookUpHere 7 ?s1 = Some 0"
    using s by (intro LookUpHere_marker_on_top) auto
  have i: "InsertEntry 7 ?s1 = Exit 0 (?s1\<lparr>out := [Semantic_Error ST_OVERFLOW 0 0]\<rparr>)"
    using s l by (simp add: InsertEntry_def bnd_def)
  have d: "declare_in_scope 7 s = Exit 0 (?s1\<lparr>out := [Semantic_Error ST_OVERFLOW 0 0]\<rparr>)"
    using o i by (simp add: declare_in_scope_def bnd_def)
  have "(500::nat) = Suc 499"
    by simp
  then have "repeat 500 (declare_in_scope 7) (init_state [])
      = bnd (repeat 499 (declare_in_scope 7)) (\<lambda>_. declare_in_scope 7) (init_state [])"
    by (simp only: repeat.simps)
  also have "\<dots> = declare_in_scope 7 s"
    using s(1) by simp
  finally have "repeat 500 (declare_in_scope 7) (init_state [])
      = Exit 0 (?s1\<lparr>out := [Semantic_Error ST_OVERFLOW 0 0]\<rparr>)"
    using d by simp
  with s show ?thesis
    by (simp add: returned_def printed_def exit_status_def)
qed

text \<open>
  The same in every state. \<open>st_top\<close> is the index of the entry inserted last, and entries
  start at index 1. For a name for which \<open>LookUpHere\<close> returns 0 (its scan of the current
  scope ends at a block marker without meeting the name), \<open>InsertEntry\<close> takes the
  overflow branch exactly when \<open>st_top\<close> has reached \<open>ST_SIZE - 1\<close>, 499; below that, and
  with room in the pool and on the stack, it inserts the symbol and prints nothing.
\<close>

theorem InsertEntry_table_capacity:
  assumes "LookUpHere ident s = Some 0"
  shows "(ST_SIZE - 1 \<le> st_top s
           \<longrightarrow> InsertEntry ident s = Exit 0 (s\<lparr>out := out s @ [Semantic_Error ST_OVERFLOW 0 0]\<rparr>))
       \<and> (0 \<le> st_top s \<and> st_top s < ST_SIZE - 1
            \<and> 0 \<le> attr_top s \<and> attr_top s < ATTR_SIZE - 2
            \<and> - 1 \<le> stack_top s \<and> stack_top s < STACK_SIZE - 1
           \<longrightarrow> InsertEntry ident s = Return (st_top s + 1) (inserted ident s)
              \<and> st_top (inserted ident s) = st_top s + 1
              \<and> out (inserted ident s) = out s)"
  using assms by (auto simp: InsertEntry_new) (simp add: InsertEntry_def bnd_def)

theorem InsertEntry_table_capacity_witness:
  "LookUpHere 7 ((open_blocks_state 1)\<lparr>st_top := 499\<rparr>) = Some 0
   \<and> InsertEntry 7 ((open_blocks_state 1)\<lparr>st_top := 499\<rparr>)
       = Exit 0 ((open_blocks_state 1)\<lparr>st_top := 499, out := [Semantic_Error ST_OVERFLOW 0 0]\<rparr>)
   \<and> LookUpHere 7 (open_blocks_state 1) = Some 0
   \<and> InsertEntry 7 (open_blocks_state 1) = Return 1 (inserted 7 (open_blocks_state 1))"
proof -
  have l: "LookUpHere 7 (open_blocks_state 1) = Some 0"
    by (simp add: LookUpHere_def LookUpHere_scan.simps open_blocks_state_def)
  have l': "LookUpHere 7 ((open_blocks_state 1)\<lparr>st_top := 499\<rparr>) = Some 0"
    by (simp add: LookUpHere_def LookUpHere_scan.simps open_blocks_state_def)
  have f: "st_top (open_blocks_state 1) = 0" "attr_top (open_blocks_state 1) = 0"
    "stack_top (open_blocks_state 1) = 1" "out (open_blocks_state 1) = []"
    by (simp_all add: open_blocks_state_def init_state_def)
  from InsertEntry_table_capacity [OF l, THEN conjunct2]
       InsertEntry_table_capacity [OF l', THEN conjunct1] l l' f
  show ?thesis by simp
qed

section \<open>Opening and closing a scope\<close>

lemma same_frame_refl [simp]: "same_frame f f"
  by (simp add: same_frame_def)

lemma same_frame_trans: "same_frame f g \<Longrightarrow> same_frame g h \<Longrightarrow> same_frame f h"
  by (auto simp: same_frame_def)

lemma same_frame_marker: "same_frame f g \<Longrightarrow> marker g = marker f"
  by (auto simp: same_frame_def)

lemma same_frame_used: "same_frame f (f\<lparr>used := True\<rparr>)"
  by (simp add: same_frame_def)

lemma grows_refl: "sane s \<Longrightarrow> grows b s s"
  by (auto simp: grows_def)

lemma grows_trans:
  assumes "grows b s s1" "grows b s1 s2"
  shows "grows b s s2"
proof -
  have "\<And>i. stack_top s < i \<and> i \<le> stack_top s2 \<Longrightarrow> \<not> marker (stack s2 i)"
  proof -
    fix i assume i: "stack_top s < i \<and> i \<le> stack_top s2"
    show "\<not> marker (stack s2 i)"
    proof (cases "i \<le> stack_top s1")
      case True
      with i assms have "\<not> marker (stack s1 i)" by (simp add: grows_def)
      moreover have "marker (stack s2 i) = marker (stack s1 i)"
        using True assms(2) by (cases b) (auto simp: grows_def same_frame_marker)
      ultimately show ?thesis by simp
    next
      case False
      with i assms(2) show ?thesis by (simp add: grows_def)
    qed
  qed
  moreover have "\<And>i. i \<le> stack_top s \<Longrightarrow>
            (if b then stack s2 i = stack s i else same_frame (stack s i) (stack s2 i))"
  proof -
    fix i assume i: "i \<le> stack_top s"
    then have "i \<le> stack_top s1" using assms(1) by (simp add: grows_def)
    with i assms show "(if b then stack s2 i = stack s i else same_frame (stack s i) (stack s2 i))"
      by (cases b) (auto simp: grows_def intro: same_frame_trans)
  qed
  ultimately show ?thesis
    using assms by (simp add: grows_def)
qed

lemma InsertEntry_outcome:
  assumes "sane s" and "InsertEntry ident s = Return r s'"
  shows "(r = 0 \<and> s' = s\<lparr>out := out s @ [Semantic_Error REDECLARATION ident 0]\<rparr>)
       \<or> (r = st_top s + 1 \<and> s' = inserted ident s \<and> st_top s < ST_SIZE - 1
            \<and> attr_top s < ATTR_SIZE - 2 \<and> stack_top s < STACK_SIZE - 1)"
proof (cases "LookUpHere ident s")
  case None
  with assms show ?thesis by (simp add: InsertEntry_def)
next
  case (Some here)
  show ?thesis
  proof (cases "here = 0")
    case False
    with Some assms show ?thesis by (simp add: InsertEntry_def)
  next
    case True
    let ?top = "st_top s + 1"
    let ?s1 = "s\<lparr>st_top := ?top, st := (st s)(?top := 0)\<rparr>"
    let ?c1 = "attr_top s + 1"
    let ?s2 = "?s1\<lparr>attr_top := ?c1, attrarray := (attrarray s)(?c1 := \<lparr>attr_num = NAME_ATTR, attr_val = ident, next_attr = 0\<rparr>),
                st := (st s)(?top := ?c1)\<rparr>"
    have bounds: "0 \<le> st_top s" "0 \<le> attr_top s" "- 1 \<le> stack_top s"
      using assms(1) by (simp_all add: sane_def)
    have st: "st_top s < ST_SIZE - 1"
    proof (rule ccontr)
      assume "\<not> st_top s < ST_SIZE - 1"
      with Some True have "InsertEntry ident s = Exit 0 (s\<lparr>out := out s @ [Semantic_Error ST_OVERFLOW 0 0]\<rparr>)"
        by (simp add: InsertEntry_def bnd_def)
      with assms(2) show False by simp
    qed
    have a1: "attr_top s < ATTR_SIZE - 1"
    proof (rule ccontr)
      assume n: "\<not> attr_top s < ATTR_SIZE - 1"
      have "SetAttr ?top NAME_ATTR ident ?s1 = Exit 0 (?s1\<lparr>out := out s @ [Semantic_Error ATTR_OVERFLOW 0 0]\<rparr>)"
        using bounds st n by (simp add: SetAttr_def IsAttr_def bnd_def pure_of_def)
      with Some True st bounds have "InsertEntry ident s = Exit 0 (?s1\<lparr>out := out s @ [Semantic_Error ATTR_OVERFLOW 0 0]\<rparr>)"
        by (simp add: InsertEntry_def bnd_def Let_def)
      with assms(2) show False by simp
    qed
    have s1: "SetAttr ?top NAME_ATTR ident ?s1 = Return () ?s2"
      using bounds st a1 by (simp add: SetAttr_def IsAttr_def bnd_def pure_of_def store_link_def to_char_def Let_def)
    have i2: "IsAttr ?top NEST_ATTR ?s2 = Some 0"
      using bounds st a1 by (simp add: IsAttr_def IsAttr_loop_next)
    have f2: "SetAttr_find (attrarray ?s2) NEST_ATTR (At_st ?top) (st ?s2 ?top) = Some (At_next ?c1, 0)"
      using bounds st a1 by (simp add: SetAttr_find_next)
    have a2: "attr_top s < ATTR_SIZE - 2"
    proof (rule ccontr)
      assume n: "\<not> attr_top s < ATTR_SIZE - 2"
      have "SetAttr ?top NEST_ATTR (nesting ?s2) ?s2 = Exit 0 (?s2\<lparr>out := out s @ [Semantic_Error ATTR_OVERFLOW 0 0]\<rparr>)"
        using bounds st n i2 f2 by (simp add: SetAttr_def bnd_def pure_of_def)
      with Some True st bounds s1 have "InsertEntry ident s = Exit 0 (?s2\<lparr>out := out s @ [Semantic_Error ATTR_OVERFLOW 0 0]\<rparr>)"
        by (simp add: InsertEntry_def bnd_def Let_def)
      with assms(2) show False by simp
    qed
    let ?c2 = "attr_top s + 2"
    let ?s3 = "?s2\<lparr>attr_top := ?c2, attrarray := (attrarray ?s2)(?c2 := \<lparr>attr_num = NEST_ATTR, attr_val = nesting s, next_attr = 0\<rparr>,
                 ?c1 := \<lparr>attr_num = NAME_ATTR, attr_val = ident, next_attr = ?c2\<rparr>)\<rparr>"
    have s2: "SetAttr ?top NEST_ATTR (nesting ?s2) ?s2 = Return () ?s3"
      using bounds st a2 i2 f2 by (simp add: SetAttr_def bnd_def pure_of_def store_link_def to_char_def Let_def add.commute)
    have sk: "stack_top s < STACK_SIZE - 1"
    proof (rule ccontr)
      assume n: "\<not> stack_top s < STACK_SIZE - 1"
      have "Push False ident ?top False ?s3 = Exit 0 (?s3\<lparr>out := out s @ [Semantic_Error STACK_OVERFLOW 0 0]\<rparr>)"
        using n by (simp add: Push_def bnd_def)
      with Some True st bounds s1 s2 have "InsertEntry ident s = Exit 0 (?s3\<lparr>out := out s @ [Semantic_Error STACK_OVERFLOW 0 0]\<rparr>)"
        by (simp add: InsertEntry_def bnd_def Let_def)
      with assms(2) show False by simp
    qed
    have "InsertEntry ident s = Return (st_top s + 1) (inserted ident s)"
      using Some True bounds st a2 sk by (intro InsertEntry_new) auto
    with assms(2) st a2 sk show ?thesis by simp
  qed
qed

lemma LookUp_outcome:
  assumes "LookUp ident s = Return r s'"
  shows "(\<exists>i. 0 < i \<and> i \<le> stack_top s \<and> s' = s\<lparr>stack := (stack s)(i := (stack s i)\<lparr>used := True\<rparr>)\<rparr>)
       \<or> (stack_top s < STACK_SIZE - 1
           \<and> s' = s\<lparr>out := out s @ [Semantic_Error UNDECLARATION ident 0],
                     stack_top := stack_top s + 1,
                     stack := (stack s)(stack_top s + 1 :=
                        \<lparr>marker = False, name = ident, st_ptr = 0, dummy = True, used = False\<rparr>)\<rparr>)"
proof (cases "LookUp_scan (stack s) ident (stack_top s)")
  case (Some i)
  then have "0 < i \<and> i \<le> stack_top s" by (simp add: LookUp_scan_Some)
  with Some assms show ?thesis
    by (auto simp: LookUp_def split: if_splits)
next
  case None
  with assms show ?thesis
    by (auto simp: LookUp_def Push_def bnd_def Let_def split: if_splits)
qed

lemma OpenBlock_outcome:
  assumes "OpenBlock s = Return u s'"
  shows "stack_top s < STACK_SIZE - 1
       \<and> s' = s\<lparr>nesting := nesting s + 1, stack_top := stack_top s + 1,
                 stack := (stack s)(stack_top s + 1 :=
                    \<lparr>marker = True, name = 0, st_ptr = 0, dummy = False, used = False\<rparr>)\<rparr>"
  using assms by (auto simp: OpenBlock_def Push_def bnd_def Let_def split: if_splits)

lemma CloseBlock_scan_finds:
  "0 \<le> m \<Longrightarrow> marker (stk m) \<Longrightarrow> m \<le> n \<Longrightarrow> n < STACK_SIZE
   \<Longrightarrow> (\<forall>i. m < i \<and> i \<le> n \<longrightarrow> \<not> marker (stk i))
   \<Longrightarrow> CloseBlock_scan stk n = Some m"
proof (induction stk n rule: CloseBlock_scan.induct)
  case (1 stk i)
  show ?case
  proof (cases "i = m")
    case True
    with 1 show ?thesis by (subst CloseBlock_scan.simps) simp
  next
    case False
    with 1 have nm: "\<not> marker (stk i)" "m \<le> i - 1" "0 \<le> i" by auto
    with 1 have "CloseBlock_scan stk (i - 1) = Some m" by auto
    with nm 1 show ?thesis by (subst CloseBlock_scan.simps) simp
  qed
qed

lemma has_nest_GetAttr:
  "has_nest s sy d \<Longrightarrow> GetAttr sy NEST_ATTR s = Return d s"
proof -
  assume h: "has_nest s sy d"
  let ?c1 = "st s sy"
  let ?c2 = "next_attr (attrarray s ?c1)"
  have "IsAttr_loop (attrarray s) NEST_ATTR ?c1 = IsAttr_loop (attrarray s) NEST_ATTR ?c2"
    using h by (intro IsAttr_loop_next) (auto simp: has_nest_def)
  also have "\<dots> = Some ?c2"
    using h by (intro IsAttr_loop_hit) (auto simp: has_nest_def)
  finally have "IsAttr sy NEST_ATTR s = Some ?c2"
    using h by (simp add: IsAttr_def has_nest_def)
  then show ?thesis
    using h by (simp add: GetAttr_def bnd_def has_nest_def)
qed

lemma has_nest_inserted:
  assumes "sane s" "st_top s < ST_SIZE - 1" "attr_top s < ATTR_SIZE - 2"
  shows "has_nest (inserted ident s) (st_top s + 1) (nesting s)"
    and "has_nest s sy d \<Longrightarrow> has_nest (inserted ident s) sy d"
  using assms by (auto simp: has_nest_def inserted_def sane_def)

lemma has_nest_stack_only:
  "st s' = st s \<Longrightarrow> attrarray s' = attrarray s \<Longrightarrow> st_top s' = st_top s \<Longrightarrow> attr_top s' = attr_top s
   \<Longrightarrow> has_nest s' sy d = has_nest s sy d"
  by (simp add: has_nest_def)

lemma bnd_ReturnD:
  "bnd f g s = Return y s' \<Longrightarrow> \<exists>x s1. f s = Return x s1 \<and> g x s1 = Return y s'"
  by (auto simp: bnd_def split: result.splits)

lemma grows_Declare:
  assumes "sane s" "run_op (Declare ident) s = Return l s'"
  shows "grows b s s' \<and> (\<forall>p\<in>set l. has_nest s' (fst p) (snd p))"
proof -
  from assms(2) obtain r where r: "InsertEntry ident s = Return r s'"
    and l: "l = (if r = 0 then [] else [(r, nesting s)])"
    by (auto dest!: bnd_ReturnD)
  from InsertEntry_outcome [OF assms(1) r] show ?thesis
  proof
    assume "r = 0 \<and> s' = s\<lparr>out := out s @ [Semantic_Error REDECLARATION ident 0]\<rparr>"
    with l assms(1) show ?thesis by (auto simp: grows_def sane_def has_nest_def)
  next
    assume a: "r = st_top s + 1 \<and> s' = inserted ident s \<and> st_top s < ST_SIZE - 1
            \<and> attr_top s < ATTR_SIZE - 2 \<and> stack_top s < STACK_SIZE - 1"
    then have "sane s'" using assms(1) by (simp add: sane_def)
    moreover have "\<forall>sy d. has_nest s sy d \<longrightarrow> has_nest s' sy d"
      using a assms(1) has_nest_inserted(2) by blast
    moreover have "has_nest s' r (nesting s)"
      using a assms(1) has_nest_inserted(1) by blast
    moreover have "r \<noteq> 0" using a assms(1) by (simp add: sane_def)
    moreover have "\<forall>i. stack_top s < i \<and> i \<le> stack_top s' \<longrightarrow> \<not> marker (stack s' i)"
      using a by (auto simp: inserted_def)
    moreover have "\<forall>i. i \<le> stack_top s \<longrightarrow> stack s' i = stack s i"
      using a by (auto simp: inserted_def)
    moreover have "stack_top s \<le> stack_top s'" "nesting s' = nesting s"
      using a by simp_all
    ultimately show ?thesis
      using l by (simp add: grows_def)
  qed
qed

lemma grows_Use:
  assumes "sane s" "run_op (Use ident) s = Return l s'"
  shows "grows False s s' \<and> (\<forall>p\<in>set l. has_nest s' (fst p) (snd p))"
proof -
  from assms(2) obtain r where r: "LookUp ident s = Return r s'" and l: "l = []"
    by (auto dest!: bnd_ReturnD)
  from LookUp_outcome [OF r] show ?thesis
  proof
    assume "\<exists>i. 0 < i \<and> i \<le> stack_top s \<and> s' = s\<lparr>stack := (stack s)(i := (stack s i)\<lparr>used := True\<rparr>)\<rparr>"
    then obtain i where "s' = s\<lparr>stack := (stack s)(i := (stack s i)\<lparr>used := True\<rparr>)\<rparr>" by blast
    with l assms(1) show ?thesis
      by (auto simp: grows_def sane_def has_nest_def same_frame_def)
  next
    assume "stack_top s < STACK_SIZE - 1
           \<and> s' = s\<lparr>out := out s @ [Semantic_Error UNDECLARATION ident 0],
                     stack_top := stack_top s + 1,
                     stack := (stack s)(stack_top s + 1 :=
                        \<lparr>marker = False, name = ident, st_ptr = 0, dummy = True, used = False\<rparr>)\<rparr>"
    with l assms(1) show ?thesis
      by (auto simp: grows_def sane_def has_nest_def)
  qed
qed

lemma grows_Block:
  assumes IH: "\<And>s l s'. sane s \<Longrightarrow> run_ops ops s = Return l s'
                 \<Longrightarrow> grows b s s' \<and> (\<forall>p\<in>set l. has_nest s' (fst p) (snd p))"
    and sane: "sane s" and run: "run_op (Block ops) s = Return l s'"
  shows "grows b s s' \<and> stack_top s' = stack_top s \<and> (\<forall>p\<in>set l. has_nest s' (fst p) (snd p))"
proof -
  from run obtain u s1 where o: "OpenBlock s = Return u s1"
    and r1: "bnd (run_ops ops) (\<lambda>l. bnd CloseBlock (\<lambda>_. ret l)) s1 = Return l s'"
    by (auto dest!: bnd_ReturnD)
  from r1 obtain l2 s2 where b: "run_ops ops s1 = Return l2 s2"
    and r2: "bnd CloseBlock (\<lambda>_. ret l2) s2 = Return l s'"
    by (auto dest!: bnd_ReturnD)
  from r2 obtain u' where c: "CloseBlock s2 = Return u' s'" and l: "l = l2"
    by (auto dest!: bnd_ReturnD)
  let ?m = "stack_top s + 1"
  from OpenBlock_outcome [OF o]
  have s1: "stack_top s < STACK_SIZE - 1"
     "s1 = s\<lparr>nesting := nesting s + 1, stack_top := ?m,
                 stack := (stack s)(?m := \<lparr>marker = True, name = 0, st_ptr = 0, dummy = False, used = False\<rparr>)\<rparr>"
    by simp_all
  have sane1: "sane s1" using sane s1 by (simp add: sane_def)
  from IH [OF sane1 b] have g: "grows b s1 s2" and logs: "\<forall>p\<in>set l2. has_nest s2 (fst p) (snd p)"
    by simp_all
  have top1: "stack_top s1 = ?m" using s1 by simp
  have m0: "0 \<le> ?m" using sane by (simp add: sane_def)
  have mk: "marker (stack s2 ?m)"
  proof -
    have "marker (stack s1 ?m)" using s1 by simp
    moreover have "if b then stack s2 ?m = stack s1 ?m else same_frame (stack s1 ?m) (stack s2 ?m)"
      using g top1 by (simp add: grows_def)
    ultimately show ?thesis by (cases b) (auto simp: same_frame_def)
  qed
  have above: "\<forall>i. ?m < i \<and> i \<le> stack_top s2 \<longrightarrow> \<not> marker (stack s2 i)"
    using g top1 by (simp add: grows_def)
  have le: "?m \<le> stack_top s2" using g top1 by (simp add: grows_def)
  have lt: "stack_top s2 < STACK_SIZE" using g by (simp add: grows_def sane_def)
  have scan: "CloseBlock_scan (stack s2) (stack_top s2) = Some ?m"
    using m0 mk le lt above by (rule CloseBlock_scan_finds)
  have s': "s' = s2\<lparr>nesting := nesting s2 - 1, stack_top := stack_top s\<rparr>"
    using c scan by (simp add: CloseBlock_def bnd_def)
  have n2: "nesting s2 = nesting s + 1" using g s1 by (simp add: grows_def)
  have fr: "\<forall>i. i \<le> stack_top s \<longrightarrow>
              (if b then stack s' i = stack s i else same_frame (stack s i) (stack s' i))"
  proof (intro allI impI)
    fix i assume i: "i \<le> stack_top s"
    then have "i \<le> stack_top s1" "stack s1 i = stack s i" using s1 by simp_all
    with g s' show "if b then stack s' i = stack s i else same_frame (stack s i) (stack s' i)"
      by (cases b) (auto simp: grows_def)
  qed
  have hn: "\<forall>sy d. has_nest s sy d \<longrightarrow> has_nest s' sy d"
  proof (intro allI impI)
    fix sy d assume "has_nest s sy d"
    then have "has_nest s1 sy d" using s1 by (simp add: has_nest_def)
    then have "has_nest s2 sy d" using g by (simp add: grows_def)
    then show "has_nest s' sy d" using s' by (simp add: has_nest_def)
  qed
  have sane': "sane s'" using g s' sane by (simp add: grows_def sane_def)
  have lg: "\<forall>p\<in>set l. has_nest s' (fst p) (snd p)"
    using logs l s' by (simp add: has_nest_def)
  have top: "stack_top s' = stack_top s" and nest: "nesting s' = nesting s"
    using s' n2 by simp_all
  show ?thesis
    using sane' top nest fr hn lg by (auto simp: grows_def)
qed

lemma grows_weaken: "grows True s s' \<Longrightarrow> grows False s s'"
  by (auto simp: grows_def)

lemma run_grows:
  "\<forall>s l s'. sane s \<longrightarrow> (b \<longrightarrow> lookup_free x) \<longrightarrow> run_op x s = Return l s'
      \<longrightarrow> grows b s s' \<and> (\<forall>p\<in>set l. has_nest s' (fst p) (snd p))"
  and run_ops_grows: "\<forall>s l s'. sane s \<longrightarrow> (b \<longrightarrow> list_all lookup_free xs) \<longrightarrow> run_ops xs s = Return l s'
      \<longrightarrow> grows b s s' \<and> (\<forall>p\<in>set l. has_nest s' (fst p) (snd p))"
proof (induction x and xs rule: run_op_run_ops.induct)
  case (1 ident)
  show ?case using grows_Declare by blast
next
  case (2 ident)
  show ?case using grows_Use by (cases b) auto
next
  case (3 ops)
  show ?case
  proof (intro allI impI)
    fix s l s'
    assume a: "sane s" "b \<longrightarrow> lookup_free (Block ops)" "run_op (Block ops) s = Return l s'"
    have "\<And>s l s'. sane s \<Longrightarrow> run_ops ops s = Return l s'
                 \<Longrightarrow> grows b s s' \<and> (\<forall>p\<in>set l. has_nest s' (fst p) (snd p))"
      using 3 a(2) by simp
    from grows_Block [OF this a(1) a(3)]
    show "grows b s s' \<and> (\<forall>p\<in>set l. has_nest s' (fst p) (snd p))" by simp
  qed
next
  case 4
  show ?case by (simp add: grows_refl)
next
  case (5 x xs)
  show ?case
  proof (intro allI impI)
    fix s l s'
    assume a: "sane s" "b \<longrightarrow> list_all lookup_free (x # xs)" "run_ops (x # xs) s = Return l s'"
    from a(3) obtain l1 s1 where x: "run_op x s = Return l1 s1"
      and r: "bnd (run_ops xs) (\<lambda>l'. ret (l1 @ l')) s1 = Return l s'"
      by (auto dest!: bnd_ReturnD)
    from r obtain l2 where xs: "run_ops xs s1 = Return l2 s'" and l: "l = l1 @ l2"
      by (auto dest!: bnd_ReturnD)
    from 5(1) a x have g1: "grows b s s1" and h1: "\<forall>p\<in>set l1. has_nest s1 (fst p) (snd p)"
      by auto
    then have "sane s1" by (simp add: grows_def)
    with 5(2) a xs have g2: "grows b s1 s'" and h2: "\<forall>p\<in>set l2. has_nest s' (fst p) (snd p)"
      by auto
    from h1 g2 have "\<forall>p\<in>set l1. has_nest s' (fst p) (snd p)"
      by (simp add: grows_def)
    with h2 l grows_trans [OF g1 g2]
    show "grows b s s' \<and> (\<forall>p\<in>set l. has_nest s' (fst p) (snd p))" by auto
  qed
qed

text \<open>
  C6, amended. Take a state whose counters are within the array bounds, and a matched pair
  of \<open>OpenBlock\<close> and \<open>CloseBlock\<close> around any sequence of declarations, lookups and
  nested matched pairs, all of which return. Then \<open>stack_top\<close> and \<open>nesting\<close> are
  restored; every frame of the stack as it was before \<open>OpenBlock\<close> has its marker, name,
  symbol and dummy fields unchanged, and a \<open>used\<close> flag that was set stays set (a lookup
  in between may have set it); with no lookup in between the frames are identical; and
  every symbol declared in between has its Nest attribute equal to the nesting depth at
  the time its frame was pushed.
\<close>

theorem block_round_trip:
  assumes "sane s" and "run_op (Block ops) s = Return l s'"
  shows "stack_top s' = stack_top s \<and> nesting s' = nesting s
       \<and> (\<forall>i. i \<le> stack_top s \<longrightarrow> same_frame (stack s i) (stack s' i))
       \<and> (list_all lookup_free ops \<longrightarrow> (\<forall>i. i \<le> stack_top s \<longrightarrow> stack s' i = stack s i))
       \<and> (\<forall>p\<in>set l. GetAttr (fst p) NEST_ATTR s' = Return (snd p) s')"
proof -
  have f: "\<And>s l s'. sane s \<Longrightarrow> run_ops ops s = Return l s'
                 \<Longrightarrow> grows False s s' \<and> (\<forall>p\<in>set l. has_nest s' (fst p) (snd p))"
    using run_ops_grows [of False ops] by simp
  from grows_Block [OF f assms]
  have g: "grows False s s'" and top: "stack_top s' = stack_top s"
    and lg: "\<forall>p\<in>set l. has_nest s' (fst p) (snd p)"
    by simp_all
  have t: "list_all lookup_free ops \<longrightarrow> (\<forall>i. i \<le> stack_top s \<longrightarrow> stack s' i = stack s i)"
  proof
    assume lf: "list_all lookup_free ops"
    have "\<And>s l s'. sane s \<Longrightarrow> run_ops ops s = Return l s'
                 \<Longrightarrow> grows True s s' \<and> (\<forall>p\<in>set l. has_nest s' (fst p) (snd p))"
      using run_ops_grows [of True ops] lf by simp
    from grows_Block [OF this assms] show "\<forall>i. i \<le> stack_top s \<longrightarrow> stack s' i = stack s i"
      by (simp add: grows_def)
  qed
  from g top lg t show ?thesis
    by (simp add: grows_def has_nest_GetAttr)
qed

theorem block_round_trip_witness:
  "sane one_symbol_state
   \<and> run_op (Block [Declare 8]) one_symbol_state
       = Return [(2, 2)]
           ((inserted 8 (one_symbol_state\<lparr>nesting := 2, stack_top := 3,
               stack := (stack one_symbol_state)
                 (3 := \<lparr>marker = True, name = 0, st_ptr = 0, dummy = False, used = False\<rparr>)\<rparr>))
            \<lparr>nesting := 1, stack_top := 2\<rparr>)
   \<and> list_all lookup_free [Declare 8]
   \<and> GetAttr 2 NEST_ATTR
        ((inserted 8 (one_symbol_state\<lparr>nesting := 2, stack_top := 3,
               stack := (stack one_symbol_state)
                 (3 := \<lparr>marker = True, name = 0, st_ptr = 0, dummy = False, used = False\<rparr>)\<rparr>))
            \<lparr>nesting := 1, stack_top := 2\<rparr>)
       = Return 2
        ((inserted 8 (one_symbol_state\<lparr>nesting := 2, stack_top := 3,
               stack := (stack one_symbol_state)
                 (3 := \<lparr>marker = True, name = 0, st_ptr = 0, dummy = False, used = False\<rparr>)\<rparr>))
            \<lparr>nesting := 1, stack_top := 2\<rparr>)"
proof -
  let ?s' = "(inserted 8 (one_symbol_state\<lparr>nesting := 2, stack_top := 3,
               stack := (stack one_symbol_state)
                 (3 := \<lparr>marker = True, name = 0, st_ptr = 0, dummy = False, used = False\<rparr>)\<rparr>))
            \<lparr>nesting := 1, stack_top := 2\<rparr>"
  have sn: "sane one_symbol_state"
    by (simp add: sane_def one_symbol_state_def)
  have r: "run_op (Block [Declare 8]) one_symbol_state = Return [(2, 2)] ?s'"
    by (simp add: symtab_eval one_symbol_state_def inserted_def fun_upd_twist)
  from block_round_trip [OF sn r] sn r show ?thesis by simp
qed

text \<open>
  C6, as the claim states it, fails when a lookup between the pair finds a frame of an
  enclosing scope: in the state with frame 2 holding the declared name 7, not yet used,
  \<open>OpenBlock(); LookUp(7); CloseBlock()\<close> returns with \<open>stack_top\<close> and \<open>nesting\<close>
  restored, but frame 2 now has its \<open>used\<close> flag set: the contents of the stack are not
  what they were.
\<close>

theorem block_lookup_changes_used_flag:
  "sane one_symbol_state
   \<and> \<not> used (stack one_symbol_state 2)
   \<and> run_op (Block [Use 7]) one_symbol_state
       = Return [] (one_symbol_state\<lparr>stack := (stack one_symbol_state)
           (2 := \<lparr>marker = False, name = 7, st_ptr = 1, dummy = False, used = True\<rparr>,
            3 := \<lparr>marker = True, name = 0, st_ptr = 0, dummy = False, used = False\<rparr>)\<rparr>)"
  by (simp add: symtab_eval one_symbol_state_def sane_def fun_upd_twist)

section \<open>A symbol keeps its name and its nesting depth\<close>

lemma IsAttr_loop_found:
  assumes "IsAttr_loop A k j = Some i" and "i \<noteq> 0"
  shows "attr_num (A i) = k \<and> 0 < i \<and> i < ATTR_SIZE"
proof -
  have "i \<noteq> 0 \<longrightarrow> attr_num (A i) = k \<and> 0 < i \<and> i < ATTR_SIZE"
    by (rule IsAttr_loop.raw_induct
          [where P = "\<lambda>A k j i. i \<noteq> 0 \<longrightarrow> attr_num (A i) = k \<and> 0 < i \<and> i < ATTR_SIZE", OF _ assms(1)])
       (auto split: if_splits)
  with assms(2) show ?thesis by simp
qed







section \<open>Setting an attribute\<close>

lemma seg_append: "seg A i (xs @ ys) j = (\<exists>m. seg A i xs m \<and> seg A m ys j)"
  by (induction xs arbitrary: i) auto

lemma seg_same:
  "(\<forall>c\<in>set cs. next_attr (A' c) = next_attr (A c)) \<Longrightarrow> seg A' i cs j = seg A i cs j"
  by (induction cs arbitrary: i) auto

lemma kinds_same:
  "(\<forall>c\<in>set cs. attr_num (A' c) = attr_num (A c)) \<Longrightarrow> kinds A' cs = kinds A cs"
  by (simp add: kinds_def)

lemma sorted_kinds_distinct: "sorted_wrt (<) (kinds A cs) \<Longrightarrow> distinct cs"
proof (induction cs)
  case Nil
  then show ?case by simp
next
  case (Cons c cs)
  then have "\<forall>x\<in>set cs. attr_num (A c) < attr_num (A x)" by (simp add: kinds_def)
  then have "c \<notin> set cs" by auto
  with Cons show ?case by (simp add: kinds_def)
qed

lemma IsAttr_loop_seg:
  "seg A i cs 0 \<Longrightarrow> sorted_wrt (<) (kinds A cs) \<Longrightarrow>
   IsAttr_loop A k i = Some (case find (\<lambda>c. attr_num (A c) = k) cs of None \<Rightarrow> 0 | Some c \<Rightarrow> c)"
proof (induction cs arbitrary: i)
  case Nil
  then show ?case by simp
next
  case (Cons c cs)
  then have c: "i = c" "0 < c" "c < ATTR_SIZE" and rest: "seg A (next_attr (A c)) cs 0"
    and srt: "sorted_wrt (<) (kinds A cs)" and lt: "\<forall>x\<in>set cs. attr_num (A c) < attr_num (A x)"
    by (simp_all add: kinds_def)
  consider "attr_num (A c) = k" | "k < attr_num (A c)" | "attr_num (A c) < k" by linarith
  then show ?case
  proof cases
    case 1
    with c show ?thesis by (simp add: IsAttr_loop_hit)
  next
    case 2
    with lt have "\<forall>x\<in>set cs. attr_num (A x) \<noteq> k" by auto
    then have "find (\<lambda>c. attr_num (A c) = k) cs = None" by (simp add: find_None_iff)
    with 2 c show ?thesis by (simp add: IsAttr_loop_past)
  next
    case 3
    with c have "IsAttr_loop A k i = IsAttr_loop A k (next_attr (A c))"
      by (simp add: IsAttr_loop_next)
    with Cons.IH [OF rest srt] 3 show ?thesis by simp
  qed
qed

lemma SetAttr_find_seg:
  "seg A i cs 0 \<Longrightarrow> k \<notin> set (kinds A cs) \<Longrightarrow>
   SetAttr_find A k p i =
     Some (case takeWhile (\<lambda>c. attr_num (A c) < k) cs of [] \<Rightarrow> p | x # xs \<Rightarrow> At_next (last (x # xs)),
           case dropWhile (\<lambda>c. attr_num (A c) < k) cs of [] \<Rightarrow> 0 | c # _ \<Rightarrow> c)"
proof (induction cs arbitrary: i p)
  case Nil
  then show ?case by simp
next
  case (Cons c cs)
  then have c: "i = c" "0 < c" "c < ATTR_SIZE" and rest: "seg A (next_attr (A c)) cs 0"
    and nk: "k \<notin> set (kinds A cs)" 
    by (simp_all add: kinds_def)
  show ?case
  proof (cases "attr_num (A c) < k")
    case True
    with c have "SetAttr_find A k p i = SetAttr_find A k (At_next c) (next_attr (A c))"
      by (simp add: SetAttr_find_next)
    with Cons.IH [OF rest nk, of "At_next c"] True show ?thesis
      by (simp split: list.splits)
  next
    case False
    with c show ?thesis by (simp add: SetAttr_find_stop)
  qed
qed

lemma seg_mem: "seg A i cs j \<Longrightarrow> c \<in> set cs \<Longrightarrow> 0 < c \<and> c < ATTR_SIZE"
  by (induction cs arbitrary: i) auto

lemma seg_head: "seg A i cs 0 \<Longrightarrow> i = (case cs of [] \<Rightarrow> 0 | c # _ \<Rightarrow> c)"
  by (cases cs) auto

lemma IsAttr_attr_list:
  assumes "attr_list s sp cs" "0 \<le> sp" "sp < ST_SIZE"
  shows "IsAttr sp k s = Some (case find (\<lambda>c. attr_num (attrarray s c) = k) cs of None \<Rightarrow> 0 | Some c \<Rightarrow> c)"
  using assms by (simp add: IsAttr_def attr_list_def IsAttr_loop_seg)

lemma find_kind:
  "k \<in> set (kinds A cs) \<Longrightarrow> \<exists>c. find (\<lambda>c. attr_num (A c) = k) cs = Some c \<and> c \<in> set cs \<and> attr_num (A c) = k"
  by (induction cs) (auto simp: kinds_def)

lemma find_no_kind:
  "k \<notin> set (kinds A cs) \<Longrightarrow> find (\<lambda>c. attr_num (A c) = k) cs = None"
  by (auto simp: kinds_def find_None_iff)

lemma kinds_simps [simp]:
  "kinds A [] = []" "kinds A (c # cs) = attr_num (A c) # kinds A cs"
  "kinds A (xs @ ys) = kinds A xs @ kinds A ys"
  by (simp_all add: kinds_def)

lemma attrs_of_simps [simp]:
  "attrs_of A [] = []" "attrs_of A (c # cs) = (attr_num (A c), attr_val (A c)) # attrs_of A cs"
  "attrs_of A (xs @ ys) = attrs_of A xs @ attrs_of A ys"
  by (simp_all add: attrs_of_def)

lemma attrs_of_same:
  "(\<forall>c\<in>set cs. attr_num (A' c) = attr_num (A c) \<and> attr_val (A' c) = attr_val (A c))
   \<Longrightarrow> attrs_of A' cs = attrs_of A cs"
  by (simp add: attrs_of_def)

lemma map_fst_attrs_of [simp]: "map fst (attrs_of A cs) = kinds A cs"
  by (simp add: attrs_of_def kinds_def)

lemma strictly_sorted_distinct: "sorted_wrt (<) (xs :: int list) \<Longrightarrow> distinct xs"
  by (induction xs) auto

lemma map_of_attrs_overwrite:
  assumes "distinct (kinds A cs)" "c \<in> set cs"
    and "attr_num (A' c) = attr_num (A c)" "attr_val (A' c) = v"
    and "\<forall>x. x \<noteq> c \<longrightarrow> attr_num (A' x) = attr_num (A x) \<and> attr_val (A' x) = attr_val (A x)"
  shows "map_of (attrs_of A' cs) = (map_of (attrs_of A cs))(attr_num (A c) \<mapsto> v)"
  using assms(1,2)
proof (induction cs)
  case Nil
  then show ?case by simp
next
  case (Cons x xs)
  show ?case
  proof (cases "x = c")
    case True
    then have "attr_num (A c) \<notin> set (kinds A xs)" using Cons.prems by simp
    then have "c \<notin> set xs" by (auto simp: kinds_def)
    then have "attrs_of A' xs = attrs_of A xs"
      using assms(5) by (intro attrs_of_same) auto
    with True assms(3,4) show ?thesis by (auto simp: fun_eq_iff)
  next
    case False
    with Cons.prems have c: "c \<in> set xs" and d: "distinct (kinds A xs)"
      and ne: "attr_num (A x) \<noteq> attr_num (A c)"
      by (auto simp: kinds_def)
    from Cons.IH [OF d c] False ne assms(5) show ?thesis
      by (auto simp: fun_eq_iff)
  qed
qed

lemma SetAttr_overwrite:
  assumes wf: "attr_list s sp cs" and sp: "0 \<le> sp" "sp < ST_SIZE"
    and k: "k \<in> set (kinds (attrarray s) cs)"
  shows "\<exists>c. c \<in> set cs \<and> attr_num (attrarray s c) = k
     \<and> SetAttr sp k v s = Return () (s\<lparr>attrarray := (attrarray s)(c := (attrarray s c)\<lparr>attr_val := v\<rparr>)\<rparr>)
     \<and> attr_list (s\<lparr>attrarray := (attrarray s)(c := (attrarray s c)\<lparr>attr_val := v\<rparr>)\<rparr>) sp cs
     \<and> kinds ((attrarray s)(c := (attrarray s c)\<lparr>attr_val := v\<rparr>)) cs = kinds (attrarray s) cs
     \<and> map_of (attrs_of ((attrarray s)(c := (attrarray s c)\<lparr>attr_val := v\<rparr>)) cs)
         = (map_of (attrs_of (attrarray s) cs))(k \<mapsto> v)"
proof -
  let ?A = "attrarray s"
  from find_kind [OF k] obtain c where c: "find (\<lambda>c. attr_num (?A c) = k) cs = Some c"
    "c \<in> set cs" "attr_num (?A c) = k" by blast
  let ?A' = "?A(c := (?A c)\<lparr>attr_val := v\<rparr>)"
  have pos: "0 < c" using wf c(2) seg_mem by (auto simp: attr_list_def)
  have i: "IsAttr sp k s = Some c"
    using IsAttr_attr_list [OF wf sp, of k] c by simp
  have r: "SetAttr sp k v s = Return () (s\<lparr>attrarray := ?A'\<rparr>)"
    using i pos by (simp add: SetAttr_def bnd_def)
  have sg: "seg ?A' (st s sp) cs 0 = seg ?A (st s sp) cs 0"
    by (intro seg_same) simp
  have kd: "kinds ?A' cs = kinds ?A cs"
    by (intro kinds_same) simp
  have wf': "attr_list (s\<lparr>attrarray := ?A'\<rparr>) sp cs"
    using wf sg kd by (simp add: attr_list_def)
  have "distinct (kinds ?A cs)"
    using wf by (simp add: attr_list_def strictly_sorted_distinct)
  from map_of_attrs_overwrite [OF this c(2), of ?A' v] c(3)
  have "map_of (attrs_of ?A' cs) = (map_of (attrs_of ?A cs))(k \<mapsto> v)" by simp
  with c r wf' kd show ?thesis by blast
qed

lemma split_kinds:
  "sorted_wrt (<) (kinds A cs) \<Longrightarrow> k \<notin> set (kinds A cs) \<Longrightarrow>
   (\<forall>c\<in>set (takeWhile (\<lambda>c. attr_num (A c) < k) cs). attr_num (A c) < k)
   \<and> (\<forall>c\<in>set (dropWhile (\<lambda>c. attr_num (A c) < k) cs). k < attr_num (A c))"
proof (induction cs)
  case Nil
  then show ?case by simp
next
  case (Cons c cs)
  then show ?case by (cases "attr_num (A c) < k") (auto simp: kinds_def)
qed

lemma seg_insert:
  assumes sg: "seg A i (pre @ post) 0" and d: "distinct (pre @ post)"
    and n: "0 < n" "n < ATTR_SIZE" "n \<notin> set (pre @ post)"
    and A1: "A1 = A(n := cell)" and nx: "next_attr cell = (case post of [] \<Rightarrow> 0 | c # _ \<Rightarrow> c)"
  shows "pre = [] \<Longrightarrow> seg A1 n (n # post) 0"
    and "pre \<noteq> [] \<Longrightarrow>
           seg (A1(last pre := (A1 (last pre))\<lparr>next_attr := n\<rparr>)) i (pre @ n # post) 0"
proof -
  from sg obtain m where m: "seg A i pre m" "seg A m post 0"
    by (auto simp: seg_append)
  have mn: "m = next_attr cell" using seg_head [OF m(2)] nx by simp
  have p1: "seg A1 m post 0 = seg A m post 0"
    using n A1 by (intro seg_same) auto
  {
    assume "pre = []"
    then show "seg A1 n (n # post) 0"
      using n m p1 mn A1 by simp
  }
  {
    assume ne: "pre \<noteq> []"
    let ?l = "last pre"
    let ?A2 = "A1(?l := (A1 ?l)\<lparr>next_attr := n\<rparr>)"
    have pre: "pre = butlast pre @ [?l]" using ne by simp
    then have "seg A i (butlast pre @ [?l]) m" using m(1) by simp
    then have b: "seg A i (butlast pre) ?l" and l: "0 < ?l" "?l < ATTR_SIZE" 
      by (auto simp: seg_append)
    have lpre: "?l \<in> set pre" using ne by simp
    have ln: "?l \<noteq> n" using n lpre by auto
    have "distinct (butlast pre @ [?l])"
      using d pre by (metis distinct_append)
    then have lb: "?l \<notin> set (butlast pre)"
      by simp
    have lp: "?l \<notin> set post" using d lpre by auto
    have b2: "seg ?A2 i (butlast pre) ?l = seg A i (butlast pre) ?l"
    proof (intro seg_same ballI)
      fix c assume "c \<in> set (butlast pre)"
      then have "c \<noteq> ?l" "c \<noteq> n" using lb n by (auto dest: in_set_butlastD)
      then show "next_attr (?A2 c) = next_attr (A c)" using A1 by simp
    qed
    have p2: "seg ?A2 m post 0 = seg A m post 0"
    proof (intro seg_same ballI)
      fix c assume "c \<in> set post"
      then have "c \<noteq> ?l" "c \<noteq> n" using lp n by auto
      then show "next_attr (?A2 c) = next_attr (A c)" using A1 by simp
    qed
    have "seg ?A2 i (butlast pre @ [?l] @ n # post) 0"
      using b b2 p2 m(2) l n ln mn A1 by (simp add: seg_append)
    with pre show "seg ?A2 i (pre @ n # post) 0"
      by (metis append.assoc)
  }
qed

lemma SetAttr_insert:
  assumes wf: "attr_list s sp cs" and sp: "0 \<le> sp" "sp < ST_SIZE"
    and k: "k \<notin> set (kinds (attrarray s) cs)" and kc: "to_char k = k"
    and top: "0 \<le> attr_top s" "attr_top s < ATTR_SIZE - 1"
    and pre: "pre = takeWhile (\<lambda>c. attr_num (attrarray s c) < k) cs"
    and post: "post = dropWhile (\<lambda>c. attr_num (attrarray s c) < k) cs"
  shows "\<exists>s'. SetAttr sp k v s = Return () s'
     \<and> attr_top s' = attr_top s + 1
     \<and> attr_list s' sp (pre @ (attr_top s + 1) # post)
     \<and> kinds (attrarray s') (pre @ (attr_top s + 1) # post)
         = kinds (attrarray s) pre @ k # kinds (attrarray s) post
     \<and> attrs_of (attrarray s') (pre @ (attr_top s + 1) # post)
         = attrs_of (attrarray s) pre @ (k, v) # attrs_of (attrarray s) post"
proof -
  let ?A = "attrarray s"
  let ?n = "attr_top s + 1"
  let ?nxt = "case post of [] \<Rightarrow> 0 | c # _ \<Rightarrow> c"
  let ?q = "case pre of [] \<Rightarrow> At_st sp | x # xs \<Rightarrow> At_next (last (x # xs))"
  let ?cell = "\<lparr>attr_num = to_char k, attr_val = v, next_attr = ?nxt\<rparr>"
  let ?A1 = "?A(?n := ?cell)"
  let ?s1 = "s\<lparr>attr_top := ?n, attrarray := ?A1\<rparr>"
  have cs: "cs = pre @ post" using pre post by simp
  have sg: "seg ?A (st s sp) cs 0" and srt: "sorted_wrt (<) (kinds ?A cs)"
    and le: "\<forall>c\<in>set cs. c \<le> attr_top s"
    using wf by (simp_all add: attr_list_def)
  have d: "distinct cs" using srt by (rule sorted_kinds_distinct)
  have n: "0 < ?n" "?n < ATTR_SIZE" "?n \<notin> set cs" using top le by auto
  have i: "IsAttr sp k s = Some 0"
    using IsAttr_attr_list [OF wf sp, of k] find_no_kind [OF k] by simp
  have f: "SetAttr_find ?A k (At_st sp) (st s sp) = Some (?q, ?nxt)"
    using SetAttr_find_seg [OF sg k, of "At_st sp"] pre post by simp
  have r: "SetAttr sp k v s = Return () (store_link ?q ?n ?s1)"
    using i f top by (simp add: SetAttr_def bnd_def Let_def)
  define s' where "s' = store_link ?q ?n ?s1"
  define A' where "A' = attrarray s'"
  have sk: "(\<forall>c\<in>set pre. attr_num (?A c) < k) \<and> (\<forall>c\<in>set post. k < attr_num (?A c))"
    using split_kinds [OF srt k] pre post by simp
  have old: "\<forall>c\<in>set cs. attr_num (A' c) = attr_num (?A c) \<and> attr_val (A' c) = attr_val (?A c)"
    using n by (auto simp: A'_def s'_def store_link_def split: list.splits)
  have new: "attr_num (A' ?n) = k" "attr_val (A' ?n) = v"
    using kc by (auto simp: A'_def s'_def store_link_def split: list.splits)
  have oldpre: "\<forall>c\<in>set pre. attr_num (A' c) = attr_num (?A c) \<and> attr_val (A' c) = attr_val (?A c)"
    and oldpost: "\<forall>c\<in>set post. attr_num (A' c) = attr_num (?A c) \<and> attr_val (A' c) = attr_val (?A c)"
    using old cs by simp_all
  have kd: "kinds A' (pre @ ?n # post) = kinds ?A pre @ k # kinds ?A post"
    using kinds_same [of pre A' ?A] kinds_same [of post A' ?A] oldpre oldpost new by simp
  have at: "attrs_of A' (pre @ ?n # post) = attrs_of ?A pre @ (k, v) # attrs_of ?A post"
    using attrs_of_same [of pre A' ?A] attrs_of_same [of post A' ?A] oldpre oldpost new by simp
  have srt': "sorted_wrt (<) (kinds ?A pre @ k # kinds ?A post)"
    using srt sk cs by (auto simp: sorted_wrt_append kinds_def)
  have sg': "seg A' (st s' sp) (pre @ ?n # post) 0"
  proof (cases pre)
    case Nil
    then have "seg ?A1 ?n (?n # post) 0"
      using seg_insert(1) [of ?A "st s sp" pre post ?n ?A1 ?cell] sg d n cs by simp
    with Nil show ?thesis by (simp add: A'_def s'_def store_link_def)
  next
    case (Cons x xs)
    then have "seg (?A1(last pre := (?A1 (last pre))\<lparr>next_attr := ?n\<rparr>)) (st s sp) (pre @ ?n # post) 0"
      using seg_insert(2) [of ?A "st s sp" pre post ?n ?A1 ?cell] sg d n cs by simp
    with Cons show ?thesis by (simp add: A'_def s'_def store_link_def)
  qed
  have tp: "attr_top s' = ?n"
    by (auto simp: s'_def store_link_def split: list.splits link.splits)
  have le': "\<forall>c\<in>set (pre @ ?n # post). c \<le> attr_top s'"
    using le cs tp by (fastforce simp: le_less)
  have "attr_list s' sp (pre @ ?n # post)"
    using sg' srt' kd le' by (simp add: attr_list_def A'_def)
  with r tp kd at show ?thesis by (auto simp: A'_def s'_def)
qed

lemma to_char_id: "- 128 \<le> k \<Longrightarrow> k \<le> 127 \<Longrightarrow> to_char k = k"
  by (simp add: to_char_def)

lemma find_map_of_attrs:
  "map_of (attrs_of A cs) k = map_option (\<lambda>c. attr_val (A c)) (find (\<lambda>c. attr_num (A c) = k) cs)"
  by (induction cs) auto

lemma GetAttr_attr_list:
  assumes "attr_list s sp cs" "0 \<le> sp" "sp < ST_SIZE"
  shows "GetAttr sp k s =
     (case map_of (attrs_of (attrarray s) cs) k of
        Some v \<Rightarrow> Return v s
      | None \<Rightarrow> Return 0 (s\<lparr>out := out s @ [Debug_no_attr k]\<rparr>))"
proof (cases "find (\<lambda>c. attr_num (attrarray s c) = k) cs")
  case None
  with IsAttr_attr_list [OF assms, of k] show ?thesis
    by (simp add: GetAttr_def bnd_def printf_def find_map_of_attrs)
next
  case (Some c)
  then have "c \<in> set cs" by (auto simp: find_Some_iff)
  then have "0 < c" using assms(1) seg_mem by (auto simp: attr_list_def)
  with Some IsAttr_attr_list [OF assms, of k] show ?thesis
    by (simp add: GetAttr_def bnd_def find_map_of_attrs)
qed

lemma map_of_insert_middle:
  assumes "k \<notin> fst ` set xs"
  shows "map_of (xs @ (k, v) # ys) = (map_of (xs @ ys))(k \<mapsto> v)"
proof
  fix x
  show "map_of (xs @ (k, v) # ys) x = ((map_of (xs @ ys))(k \<mapsto> v)) x"
  proof (cases "x = k")
    case True
    with assms have "map_of xs x = None" by (simp add: map_of_eq_None_iff)
    with True show ?thesis by (simp add: map_add_def)
  next
    case False
    then show ?thesis by (simp add: map_add_def split: option.splits)
  qed
qed

text \<open>
  C9. Let the attribute list of symbol \<open>sp\<close> be well formed (strictly ascending
  attribute numbers, as \<open>InsertEntry\<close> and \<open>SetAttr\<close> build it), let \<open>k\<close> fit the \<open>char\<close>
  field of a cell (the ten attribute kinds do) and let the capacity of the pool not be
  exceeded: the pool has a free cell unless \<open>sp\<close> has the attribute already (otherwise
  \<open>SetAttr\<close> reports the attribute overflow and aborts, as its interface says). Then
  \<open>SetAttr(sp, k, v)\<close> returns; the list of \<open>sp\<close> is again strictly ascending, with the
  same attribute numbers and \<open>k\<close>; read as a map from numbers to values it is the old one
  updated at \<open>k\<close> with \<open>v\<close>; \<open>GetAttr(sp, k)\<close> returns \<open>v\<close>; when \<open>sp\<close> had the
  attribute the cells are the same and no cell is taken from the pool, and otherwise
  exactly one new cell, the next free one, has joined the list.
\<close>

theorem SetAttr_sorted_list:
  assumes "attr_list s sp cs" and "0 \<le> sp" "sp < ST_SIZE" and "- 128 \<le> k" "k \<le> 127"
    and "0 \<le> attr_top s"
    and "k \<in> set (kinds (attrarray s) cs) \<or> attr_top s < ATTR_SIZE - 1"
  shows "\<exists>s' cs'. SetAttr sp k v s = Return () s'
      \<and> attr_list s' sp cs'
      \<and> set (kinds (attrarray s') cs') = insert k (set (kinds (attrarray s) cs))
      \<and> map_of (attrs_of (attrarray s') cs') = (map_of (attrs_of (attrarray s) cs))(k \<mapsto> v)
      \<and> GetAttr sp k s' = Return v s'
      \<and> (k \<in> set (kinds (attrarray s) cs) \<longrightarrow> cs' = cs \<and> attr_top s' = attr_top s)
      \<and> (k \<notin> set (kinds (attrarray s) cs)
           \<longrightarrow> attr_top s' = attr_top s + 1 \<and> set cs' = insert (attr_top s + 1) (set cs))"
proof (cases "k \<in> set (kinds (attrarray s) cs)")
  case True
  from SetAttr_overwrite [OF assms(1-3) True, of v]
  obtain c where c: "c \<in> set cs"
     "SetAttr sp k v s = Return () (s\<lparr>attrarray := (attrarray s)(c := (attrarray s c)\<lparr>attr_val := v\<rparr>)\<rparr>)"
     "attr_list (s\<lparr>attrarray := (attrarray s)(c := (attrarray s c)\<lparr>attr_val := v\<rparr>)\<rparr>) sp cs"
     "kinds ((attrarray s)(c := (attrarray s c)\<lparr>attr_val := v\<rparr>)) cs = kinds (attrarray s) cs"
     "map_of (attrs_of ((attrarray s)(c := (attrarray s c)\<lparr>attr_val := v\<rparr>)) cs)
         = (map_of (attrs_of (attrarray s) cs))(k \<mapsto> v)"
    by blast
  let ?s' = "s\<lparr>attrarray := (attrarray s)(c := (attrarray s c)\<lparr>attr_val := v\<rparr>)\<rparr>"
  have g: "GetAttr sp k ?s' = Return v ?s'"
    using GetAttr_attr_list [OF c(3) assms(2,3), of k] c(5) by simp
  have "SetAttr sp k v s = Return () ?s' \<and> attr_list ?s' sp cs
      \<and> set (kinds (attrarray ?s') cs) = insert k (set (kinds (attrarray s) cs))
      \<and> map_of (attrs_of (attrarray ?s') cs) = (map_of (attrs_of (attrarray s) cs))(k \<mapsto> v)
      \<and> GetAttr sp k ?s' = Return v ?s' \<and> attr_top ?s' = attr_top s"
    using c g True by auto
  with True show ?thesis by blast
next
  case False
  define pre where "pre = takeWhile (\<lambda>c. attr_num (attrarray s c) < k) cs"
  define post where "post = dropWhile (\<lambda>c. attr_num (attrarray s c) < k) cs"
  have cs: "cs = pre @ post" by (simp add: pre_def post_def)
  have room: "attr_top s < ATTR_SIZE - 1" using assms(7) False by simp
  from SetAttr_insert [OF assms(1-3) False to_char_id [OF assms(4,5)] assms(6) room pre_def post_def, of v]
  obtain s' where s': "SetAttr sp k v s = Return () s'" "attr_top s' = attr_top s + 1"
     "attr_list s' sp (pre @ (attr_top s + 1) # post)"
     "kinds (attrarray s') (pre @ (attr_top s + 1) # post)
         = kinds (attrarray s) pre @ k # kinds (attrarray s) post"
     "attrs_of (attrarray s') (pre @ (attr_top s + 1) # post)
         = attrs_of (attrarray s) pre @ (k, v) # attrs_of (attrarray s) post"
    by blast
  let ?cs' = "pre @ (attr_top s + 1) # post"
  have nk: "k \<notin> fst ` set (attrs_of (attrarray s) pre)"
    using False cs by (auto simp: attrs_of_def kinds_def)
  have m: "map_of (attrs_of (attrarray s') ?cs') = (map_of (attrs_of (attrarray s) cs))(k \<mapsto> v)"
    using s'(5) map_of_insert_middle [OF nk, of v "attrs_of (attrarray s) post"] cs by simp
  have g: "GetAttr sp k s' = Return v s'"
    using GetAttr_attr_list [OF s'(3) assms(2,3), of k] m by simp
  have ks: "set (kinds (attrarray s') ?cs') = insert k (set (kinds (attrarray s) cs))"
    using s'(4) cs by auto
  have "set ?cs' = insert (attr_top s + 1) (set cs)" using cs by auto
  with s' m g ks False show ?thesis by blast
qed

theorem SetAttr_sorted_list_witness:
  "attr_list one_symbol_state 1 [1, 2]
   \<and> (\<exists>s' cs'. SetAttr 1 KIND_ATTR CLASS one_symbol_state = Return () s'
        \<and> attr_list s' 1 cs'
        \<and> set (kinds (attrarray s') cs') = {NAME_ATTR, NEST_ATTR, KIND_ATTR}
        \<and> GetAttr 1 KIND_ATTR s' = Return CLASS s'
        \<and> attr_top s' = 3)"
proof -
  have wf: "attr_list one_symbol_state 1 [1, 2]"
    by (simp add: attr_list_def one_symbol_state_def kinds_def)
  have kd: "kinds (attrarray one_symbol_state) [1, 2] = [NAME_ATTR, NEST_ATTR]"
    by (simp add: one_symbol_state_def kinds_def)
  have tp: "attr_top one_symbol_state = 2"
    by (simp add: one_symbol_state_def)
  from SetAttr_sorted_list [OF wf, of KIND_ATTR CLASS] kd tp
  obtain s' cs' where "SetAttr 1 KIND_ATTR CLASS one_symbol_state = Return () s'"
      "attr_list s' 1 cs'"
      "set (kinds (attrarray s') cs') = insert KIND_ATTR (set [NAME_ATTR, NEST_ATTR])"
      "GetAttr 1 KIND_ATTR s' = Return CLASS s'" "attr_top s' = 3"
    by auto
  then have "\<exists>s' cs'. SetAttr 1 KIND_ATTR CLASS one_symbol_state = Return () s'
        \<and> attr_list s' 1 cs'
        \<and> set (kinds (attrarray s') cs') = {NAME_ATTR, NEST_ATTR, KIND_ATTR}
        \<and> GetAttr 1 KIND_ATTR s' = Return CLASS s'
        \<and> attr_top s' = 3"
    by auto
  with wf show ?thesis by simp
qed

section \<open>Reading the syntax tree\<close>

lemma NodeKind_node: "heap s p = Some nd \<Longrightarrow> NodeKind p s = Return (NodeKind_f nd) s"
  by (simp add: NodeKind_def deref_def bnd_def)

lemma IsNull_node: "heap s p = Some nd \<Longrightarrow> IsNull p s = Return (NodeKind_f nd = DUMMYNode) s"
  by (simp add: IsNull_def NodeKind_node)

lemma LeftChild_node:
  "heap s p = Some nd \<Longrightarrow>
   LeftChild p s = Return (if NodeKind_f nd = EXPRNode then LeftC nd else NullExp) s"
  by (simp add: LeftChild_def NodeKind_node deref_def bnd_def)

lemma RightChild_node:
  "heap s p = Some nd \<Longrightarrow>
   RightChild p s = Return (if NodeKind_f nd = EXPRNode then RightC nd else NullExp) s"
  by (simp add: RightChild_def NodeKind_node deref_def bnd_def)

lemma NodeOp_node:
  "heap s p = Some nd \<Longrightarrow>
   NodeOp p s = Return (if NodeKind_f nd = EXPRNode then NodeOpType nd else 0) s"
  by (simp add: NodeOp_def NodeKind_node deref_def bnd_def)

lemma IntVal_leaf:
  "heap s p = Some nd \<Longrightarrow> NodeKind_f nd \<noteq> EXPRNode \<Longrightarrow> IntVal p s = Return (IntVal_f nd) s"
  by (simp add: IntVal_def NodeKind_node deref_def bnd_def)

section \<open>A second method named main\<close>

lemma main_scan_finds:
  assumes wf: "\<forall>i. 0 \<le> i \<and> i \<le> st_top s \<longrightarrow> (\<exists>cs. attr_list s i cs)"
      and room: "st_top s < ST_SIZE"
      and j: "j \<le> st_top s" "IsAttr j NAME_ATTR s = Some c" "c \<noteq> 0" "attr_val (attrarray s c) = n"
  shows "0 \<le> i \<Longrightarrow> i \<le> j \<Longrightarrow> main_scan n i s = Return True s"
proof (induction "nat (j - i)" arbitrary: i)
  case 0
  then have "i = j" by simp
  with j room show ?case
    by (subst main_scan.simps) (simp add: GetAttr_def bnd_def pure_of_def)
next
  case (Suc d)
  then have lt: "i < j" by linarith
  with wf j(1) Suc.prems obtain cs where cs: "attr_list s i cs" by (meson le_less_trans less_imp_le order_trans)
  have isp: "0 \<le> i" "i < ST_SIZE" using Suc.prems j(1) room by auto
  let ?r = "case find (\<lambda>c. attr_num (attrarray s c) = NAME_ATTR) cs of None \<Rightarrow> 0 | Some c \<Rightarrow> c"
  have ia: "IsAttr i NAME_ATTR s = Some ?r" by (rule IsAttr_attr_list [OF cs isp])
  have "d = nat (j - (i + 1))" using Suc.hyps(2) by linarith
  then have next_ok: "main_scan n (i + 1) s = Return True s"
    using Suc.prems lt by (intro Suc.hyps(1)) auto
  have ga: "?r \<noteq> 0 \<Longrightarrow> GetAttr i NAME_ATTR s = Return (attr_val (attrarray s ?r)) s"
    using ia by (simp add: GetAttr_def bnd_def pure_of_def)
  show ?case
  proof (cases "?r = 0")
    case True
    with ia lt j(1) next_ok show ?thesis by (subst main_scan.simps) simp
  next
    case False
    with ia ga lt j(1) next_ok show ?thesis by (subst main_scan.simps) simp
  qed
qed

lemma second_main_state_reached:
  "bnd OpenBlock (\<lambda>_. bnd (InsertEntry 7) (\<lambda>_. CloseBlock))
     ((init_state [''Driver'', ''main''])\<lparr>heap := heap second_main_state, brk := 5\<rparr>)
   = Return () second_main_state"
  by (simp add: symtab_eval init_state_def one_symbol_state_def second_main_state_def)

text \<open>
  Claim C8. A \<open>MethodOp\<close> node is analysed whose name leaf holds the index that
  \<open>loc_str("main")\<close> returns, and some entry \<open>j\<close> of the symbol table, anywhere between 0
  and \<open>st_top\<close>, has a \<open>NAME_ATTR\<close> cell with that value. Then the analyzer prints the one
  diagnostic \<open>REDECLARATION\<close> (101, not \<open>MULTI_MAIN\<close>, 124) for the name and returns;
  apart from the printed line the state is the one before the call: no symbol is
  inserted, no scope opened, the tree is untouched. Nothing is assumed about the scope
  stack, so the entry may belong to any scope, open or closed. The hypotheses on the
  attribute lists say that the pool is well formed: every entry up to \<open>st_top\<close> has a
  finite, sorted list inside the pool, as \<open>SetAttr\<close> builds them.
\<close>

theorem MkST_second_main:
  assumes node: "heap s node = Some nd" "NodeKind_f nd = EXPRNode" "NodeOpType nd = MethodOp"
      and head: "heap s (LeftC nd) = Some hdr" "NodeKind_f hdr = EXPRNode"
      and leaf: "heap s (LeftC hdr) = Some leaf" "NodeKind_f leaf \<noteq> EXPRNode"
      and main: "IntVal_f leaf = loc_str_from 0 (strg_tbl s) ''main''"
      and wf: "\<forall>i. 0 \<le> i \<and> i \<le> st_top s \<longrightarrow> (\<exists>cs. attr_list s i cs)"
      and room: "st_top s < ST_SIZE"
      and entry: "0 \<le> j" "j \<le> st_top s" "IsAttr j NAME_ATTR s = Some c" "c \<noteq> 0"
                 "attr_val (attrarray s c) = IntVal_f leaf"
  shows "MkST (Suc n) node s =
         Return () (s\<lparr>out := out s @ [Semantic_Error REDECLARATION (IntVal_f leaf) 0]\<rparr>)"
proof -
  have scan: "main_scan (IntVal_f leaf) 0 s = Return True s"
    by (rule main_scan_finds [OF wf room entry(2-5)]) (use entry(1) in auto)
  have "methodop (MkST n) node s =
        Return () (s\<lparr>out := out s @ [Semantic_Error REDECLARATION (IntVal_f leaf) 0]\<rparr>)"
    using node head leaf main scan
    by (simp add: methodop_def LeftChild_node IntVal_leaf loc_str_def)
  then show ?thesis
    using node by (simp add: bnd_def IsNull_node NodeOp_node)
qed

theorem MkST_second_main_witness:
  "MkST 1 2 second_main_state =
   Return () (second_main_state\<lparr>out := [Semantic_Error REDECLARATION 7 0]\<rparr>)
   \<and> stack_top second_main_state = 0 \<and> loc_str_from 0 (strg_tbl second_main_state) ''main'' = 7"
proof -
  let ?s = second_main_state
  have a0: "attr_list ?s 0 []"
    by (simp add: attr_list_def second_main_state_def one_symbol_state_def kinds_def)
  have a1: "attr_list ?s 1 [1, 2]"
    by (simp add: attr_list_def second_main_state_def one_symbol_state_def kinds_def)
  have wf: "\<forall>i. 0 \<le> i \<and> i \<le> st_top ?s \<longrightarrow> (\<exists>cs. attr_list ?s i cs)"
  proof (intro allI impI)
    fix i assume "0 \<le> i \<and> i \<le> st_top ?s"
    then have "i = 0 \<or> i = 1" by (auto simp: second_main_state_def one_symbol_state_def)
    with a0 a1 show "\<exists>cs. attr_list ?s i cs" by auto
  qed
  have isa: "IsAttr 1 NAME_ATTR ?s = Some 1"
    by (simp add: symtab_eval second_main_state_def one_symbol_state_def)
  show ?thesis
    using MkST_second_main [of ?s 2 _ _ _ 1 1 0, OF _ _ _ _ _ _ _ _ wf _ _ _ isa]
    by (simp add: second_main_state_def one_symbol_state_def)
qed

section \<open>Running the analyzer twice\<close>

lemma class_tree_state_reached:
  "bnd OpenBlock (\<lambda>_. bnd (InsertEntry 0) (\<lambda>sy. bnd (SetAttr sy PREDE_ATTR 1) (\<lambda>_. SetAttr sy KIND_ATTR CLASS)))
     ((init_state [''system'', ''C''])\<lparr>heap := heap class_tree_state, brk := 6\<rparr>)
   = Return () class_tree_state"
  by (simp add: symtab_eval init_state_def class_tree_state_def fun_upd_twist)

lemmas tree_eval =
  NodeKind_def NodeOp_def IntVal_def IsNull_def LeftChild_def RightChild_def MakeLeaf_def
  SetLeftChild_def SetRightChild_def free_def deref_def loc_str_def

lemmas analyzer_eval =
  classdefop_def methodop_def typeidop_def specop_def varop_def varop_VAR_def varop_routine_def
  varop_CLASS_def varop_ARR_def length_access_def declop_def routinecallop_def

text \<open>
  C1, as the claim states it, fails on the class tree. The first run declares the class
  \<open>C\<close> as symbol 2, replaces its name leaf by the \<open>STNode\<close> leaf 6 holding 2, resolves
  the use of \<open>system\<close> to symbol 1 and replaces that leaf by the \<open>STNode\<close> leaf 7 holding
  1; it prints nothing. The second run on the same root reads the symbol indices in the
  two \<open>STNode\<close> leaves as names: it declares a new symbol 3 under the name 2, replaces
  the right child of the class node again (leaf 8 for leaf 6), looks the name 1 up,
  finds it nowhere and prints the Undeclared diagnostic twice (once in \<open>LookUp\<close>, once
  in \<open>varop\<close>).
\<close>

theorem MkST_second_run_not_fixed_point:
  "MkST 3 2 class_tree_state = Return () analysed_once_state
   \<and> out analysed_once_state = []
   \<and> MkST 3 2 analysed_once_state = Return () analysed_twice_state
   \<and> out analysed_twice_state = [Semantic_Error UNDECLARATION 1 0, Semantic_Error UNDECLARATION 1 0]
   \<and> map_option RightC (heap analysed_once_state 2) = Some 6
   \<and> map_option RightC (heap analysed_twice_state 2) = Some 8
   \<and> st_top analysed_twice_state = st_top analysed_once_state + 1"
proof -
  have "MkST 3 2 class_tree_state = Return () analysed_once_state"
    by (simp add: symtab_eval tree_eval analyzer_eval class_tree_state_def analysed_once_state_def
          dummy_node_def Let_def eval_nat_numeral fun_upd_twist)
  moreover have "MkST 3 2 analysed_once_state = Return () analysed_twice_state"
    by (simp add: symtab_eval tree_eval analyzer_eval analysed_once_state_def analysed_twice_state_def
          dummy_node_def Let_def eval_nat_numeral fun_upd_twist)
  ultimately show ?thesis
    by (simp add: analysed_once_state_def analysed_twice_state_def)
qed

section \<open>Running the analyzer on an analysed use\<close>

lemma two_vars_state_reached:
  "bnd OpenBlock (\<lambda>_.
   bnd (InsertEntry 2) (\<lambda>y.
   bnd (SetAttr y TYPE_ATTR 2) (\<lambda>_.
   bnd (SetAttr y KIND_ATTR VAR) (\<lambda>_.
   bnd (InsertEntry 0) (\<lambda>x.
   bnd (SetAttr x TYPE_ATTR 2) (\<lambda>_.
   SetAttr x KIND_ATTR VAR))))))
     (init_state [''x'', ''y''])
   = Return () (two_vars_state\<lparr>heap := heap (init_state []), brk := brk (init_state [])\<rparr>)"
  by (simp add: symtab_eval init_state_def two_vars_state_def Let_def fun_upd_twist)

lemma x_used_state_reached: "MkST 2 4 two_vars_state = Return () x_used_state"
  by (simp add: symtab_eval tree_eval analyzer_eval two_vars_state_def x_used_state_def
        bound_use_def dummy_node_def Let_def eval_nat_numeral fun_upd_twist)

lemma out_grows_neq: "s\<lparr>out := out s @ [ev]\<rparr> \<noteq> s"
proof
  assume "s\<lparr>out := out s @ [ev]\<rparr> = s"
  then have "out (s\<lparr>out := out s @ [ev]\<rparr>) = out s" by simp
  then show False by simp
qed

lemma GetAttr_present:
  assumes "GetAttr sp k s = Return v s"
  shows "\<exists>c. IsAttr sp k s = Some c \<and> c \<noteq> 0 \<and> attr_val (attrarray s c) = v"
proof -
  from assms obtain c where c: "IsAttr sp k s = Some c"
    by (cases "IsAttr sp k s") (simp_all add: GetAttr_def)
  show ?thesis
  proof (cases "c = 0")
    case True
    with assms c have "s\<lparr>out := out s @ [Debug_no_attr k]\<rparr> = s"
      by (simp add: GetAttr_def)
    with out_grows_neq show ?thesis by blast
  next
    case False
    with assms c show ?thesis by (simp add: GetAttr_def)
  qed
qed

lemma GetAttr_transfer:
  assumes "GetAttr sp k s = Return v s" "st t = st s" "attrarray t = attrarray s"
  shows "GetAttr sp k t = Return v t"
proof -
  from GetAttr_present [OF assms(1)] obtain c where
    c: "IsAttr sp k s = Some c" "c \<noteq> 0" "attr_val (attrarray s c) = v" by blast
  from c(1) assms(2,3) have "IsAttr sp k t = Some c" by (auto simp: IsAttr_def split: if_splits)
  with c assms show ?thesis by (simp add: GetAttr_def)
qed

lemma bound_use_fields [simp]:
  "st (bound_use node i s) = st s" "attrarray (bound_use node i s) = attrarray s"
  "attr_top (bound_use node i s) = attr_top s" "st_top (bound_use node i s) = st_top s"
  "strg_tbl (bound_use node i s) = strg_tbl s" "out (bound_use node i s) = out s"
  "brk (bound_use node i s) = brk s + 1"
  by (simp_all add: bound_use_def)

lemma bound_use_heap:
  "p \<noteq> node \<Longrightarrow> p \<noteq> brk s \<Longrightarrow> heap (bound_use node i s) p = heap s p"
  by (simp add: bound_use_def)

lemma varop_prefix:
  assumes use: "use_of s node nm ch"
      and found: "LookUp_scan (stack s) nm (stack_top s) = Some i" "st_ptr (stack s i) = sy" "sy \<noteq> 0"
                 "stack_top s < STACK_SIZE"
      and free: "heap s (brk s) = None"
  shows "varop mk n node dcl s =
         varop_loop mk n n (case heap s node of Some nd \<Rightarrow> LeftC nd | None \<Rightarrow> 0) dcl
           \<lparr>v_st_ind0 = sy, v_rchild = ch, v_found = None\<rparr> (bound_use node i s)"
proof -
  from use obtain nd lf where nd: "heap s node = Some nd" "NodeKind_f nd = EXPRNode" "RightC nd = ch"
    and lf: "heap s (LeftC nd) = Some lf" "NodeKind_f lf \<noteq> EXPRNode" "IntVal_f lf = nm"
    by (auto simp: use_of_def split: option.splits)
  let ?s1 = "s\<lparr>stack := (stack s)(i := (stack s i)\<lparr>used := True\<rparr>)\<rparr>"
  have l: "LookUp nm s = Return sy ?s1" using found by (simp add: LookUp_def)
  have nb: "node \<noteq> brk s" using nd free by auto
  let ?s2 = "?s1\<lparr>heap := (heap s)(brk s := Some \<lparr>NodeKind_f = STNode, NodeOpType = 0, IntVal_f = sy,
                                             LeftC = NullExp, RightC = NullExp\<rparr>),
                 brk := brk s + 1\<rparr>"
  have ml: "MakeLeaf STNode sy ?s1 = Return (brk s) ?s2"
    using free by (simp add: MakeLeaf_def)
  have sl: "SetLeftChild node (brk s) ?s2 = Return () (bound_use node i s)"
    using nd nb found(2)
    by (simp add: SetLeftChild_def NodeKind_def deref_def bnd_def bound_use_def fun_upd_twist)
  show ?thesis
    unfolding varop_def
    using nd lf l ml sl found(3)
    by (simp add: LeftChild_node RightChild_node IntVal_leaf)
qed

lemma MkST_use:
  assumes "use_of s node v ch"
  shows "MkST (Suc n) node s = varop (MkST n) n node 0 s"
proof -
  from assms obtain nd where nd: "heap s node = Some nd" "NodeKind_f nd = EXPRNode"
    "NodeOpType nd = VarOp"
    by (auto simp: use_of_def split: option.splits)
  then show ?thesis by (simp add: bnd_def IsNull_node NodeOp_node)
qed

lemma varop_unknown_name:
  assumes use: "use_of s node v ch"
      and miss: "LookUp_scan (stack s) v (stack_top s) = None"
      and room: "- 1 \<le> stack_top s" "stack_top s < STACK_SIZE - 1"
  shows "varop mk n node dcl s =
         Return () (s\<lparr>stack_top := stack_top s + 1,
                      stack := (stack s)(stack_top s + 1 :=
                        \<lparr>marker = False, name = v, st_ptr = 0, dummy = True, used = False\<rparr>),
                      out := out s @ [Semantic_Error UNDECLARATION v 0,
                                      Semantic_Error UNDECLARATION v 0]\<rparr>)"
proof -
  from use obtain nd lf where nd: "heap s node = Some nd" "NodeKind_f nd = EXPRNode" "RightC nd = ch"
    and lf: "heap s (LeftC nd) = Some lf" "NodeKind_f lf \<noteq> EXPRNode" "IntVal_f lf = v"
    by (auto simp: use_of_def split: option.splits)
  let ?s1 = "s\<lparr>stack_top := stack_top s + 1,
               stack := (stack s)(stack_top s + 1 :=
                 \<lparr>marker = False, name = v, st_ptr = 0, dummy = True, used = False\<rparr>),
               out := out s @ [Semantic_Error UNDECLARATION v 0]\<rparr>"
  have l: "LookUp v s = Return 0 ?s1"
    using miss room by (simp add: LookUp_def Push_def error_msg_def bnd_def ret_def Let_def)
  have h: "heap ?s1 = heap s" by simp
  have iv: "IntVal (LeftC nd) ?s1 = Return v ?s1"
    using lf by (intro IntVal_leaf [where nd = lf, THEN trans]) simp_all
  show ?thesis
    unfolding varop_def
    using nd lf l iv
    by (simp add: LeftChild_node RightChild_node IntVal_leaf error_msg_def)
qed

lemma varop_dummy_frame:
  assumes use: "use_of s node v ch"
      and found: "LookUp_scan (stack s) v (stack_top s) = Some i" "st_ptr (stack s i) = 0"
                 "stack_top s < STACK_SIZE"
  shows "varop mk n node dcl s =
         Return () (s\<lparr>stack := (stack s)(i := (stack s i)\<lparr>used := True\<rparr>),
                      out := out s @ [Semantic_Error UNDECLARATION v 0]\<rparr>)"
proof -
  from use obtain nd lf where nd: "heap s node = Some nd" "NodeKind_f nd = EXPRNode" "RightC nd = ch"
    and lf: "heap s (LeftC nd) = Some lf" "NodeKind_f lf \<noteq> EXPRNode" "IntVal_f lf = v"
    by (auto simp: use_of_def split: option.splits)
  let ?s1 = "s\<lparr>stack := (stack s)(i := (stack s i)\<lparr>used := True\<rparr>)\<rparr>"
  have l: "LookUp v s = Return 0 ?s1" using found by (simp add: LookUp_def)
  have iv: "IntVal (LeftC nd) ?s1 = Return v ?s1"
    using lf by (intro IntVal_leaf [where nd = lf, THEN trans]) simp_all
  show ?thesis
    unfolding varop_def
    using nd lf l iv
    by (simp add: LeftChild_node RightChild_node IntVal_leaf error_msg_def)
qed

lemma varop_loop_int_variable:
  assumes iv: "int_variable s sy" and nl: "null_tree s ch" and use: "use_of s node v ch"
      and free: "heap s (brk s) = None"
  shows "varop_loop mk n (Suc f) l dcl \<lparr>v_st_ind0 = sy, v_rchild = ch, v_found = None\<rparr>
           (bound_use node i s) = Return () (bound_use node i s)"
proof -
  let ?t = "bound_use node i s"
  from use obtain nd where nd: "heap s node = Some nd" "NodeKind_f nd = EXPRNode"
    "NodeOpType nd = VarOp"
    by (auto simp: use_of_def split: option.splits)
  from iv have k: "GetAttr sy KIND_ATTR s = Return VAR s" by (simp add: int_variable_def)
  from iv obtain ty tn bt where ty: "GetAttr sy TYPE_ATTR s = Return ty s"
    and tn: "heap s ty = Some tn" "NodeKind_f tn = EXPRNode" "NodeOpType tn = TypeIdOp"
    and bt: "heap s (LeftC tn) = Some bt" "NodeKind_f bt = INTEGERTNode"
    by (auto simp: int_variable_def split: result.splits option.splits)
  from nl obtain c where c: "heap s ch = Some c" "NodeKind_f c = DUMMYNode"
    by (auto simp: null_tree_def split: option.splits)
  have k': "GetAttr sy KIND_ATTR ?t = Return VAR ?t" by (rule GetAttr_transfer [OF k]) simp_all
  have ty': "GetAttr sy TYPE_ATTR ?t = Return ty ?t" by (rule GetAttr_transfer [OF ty]) simp_all
  have "ty \<noteq> node" "ty \<noteq> brk s" using tn nd free by auto
  then have tn': "heap ?t ty = Some tn" using tn by (simp add: bound_use_heap)
  have "LeftC tn \<noteq> node" "LeftC tn \<noteq> brk s" using bt nd free by auto
  then have bt': "heap ?t (LeftC tn) = Some bt" using bt by (simp add: bound_use_heap)
  have "ch \<noteq> node" "ch \<noteq> brk s" using c nd free by auto
  then have c': "heap ?t ch = Some c" using c by (simp add: bound_use_heap)
  have lc: "LeftChild ty ?t = Return (LeftC tn) ?t" using tn' tn(2) by (simp add: LeftChild_node)
  have nk: "NodeKind (LeftC tn) ?t = Return INTEGERTNode ?t" using bt' bt(2) by (simp add: NodeKind_node)
  have isn: "IsNull ch ?t = Return True ?t" using c' c(2) by (simp add: IsNull_node)
  show ?thesis
    using k' ty' lc nk isn by (simp add: varop_VAR_def bnd_def ret_def)
qed

lemma type_spine_walk:
  "type_spine d s r \<Longrightarrow> d \<le> f \<Longrightarrow> LeftChild r s = Return l s \<Longrightarrow>
   typeidop_loop f l r s = Return () s"
proof (induction d arbitrary: f r l)
  case 0
  then show ?case by simp
next
  case (Suc d)
  then obtain m where f: "f = Suc m" and dm: "d \<le> m" by (cases f) auto
  from Suc.prems(1) obtain nd where nd: "heap s r = Some nd"
    by (auto split: option.splits)
  show ?case
  proof (cases "NodeKind_f nd = DUMMYNode")
    case True
    with nd show ?thesis by (simp add: f bnd_def IsNull_node ret_def)
  next
    case False
    let ?l = "if NodeKind_f nd = EXPRNode then LeftC nd else NullExp"
    let ?r = "if NodeKind_f nd = EXPRNode then RightC nd else NullExp"
    from Suc.prems(3) nd have l: "l = ?l" by (simp add: LeftChild_node)
    from Suc.prems(1) nd False obtain t where t: "heap s ?l = Some t"
      "NodeKind_f t = DUMMYNode \<or> NodeKind_f t = INTEGERTNode"
      and sp: "type_spine d s ?r"
      by (auto split: option.splits)
    from sp obtain d' where d': "d = Suc d'" by (cases d) auto
    from sp obtain rn where rn: "heap s ?r = Some rn" by (auto simp: d' split: option.splits)
    have lr: "LeftChild ?r s = Return (if NodeKind_f rn = EXPRNode then LeftC rn else NullExp) s"
      using rn by (rule LeftChild_node)
    have ih: "typeidop_loop m (if NodeKind_f rn = EXPRNode then LeftC rn else NullExp) ?r s
              = Return () s"
      by (rule Suc.IH [OF sp dm lr])
    have a: "IsNull r s = Return False s" using nd False by (simp add: IsNull_node)
    have b: "IsNull ?l s = Return (NodeKind_f t = DUMMYNode) s" using t(1) by (rule IsNull_node)
    have c: "NodeKind ?l s = Return (NodeKind_f t) s" using t(1) by (rule NodeKind_node)
    have e: "RightChild r s = Return ?r s" using nd by (rule RightChild_node)
    from a b c e lr ih t(2) show ?thesis
      unfolding f l by (auto simp: bnd_def ret_def)
  qed
qed

lemma quiet_tree_walk:
  "quiet_tree d s root \<Longrightarrow> d \<le> n \<Longrightarrow> MkST n root s = Return () s"
proof (induction d arbitrary: n root)
  case 0
  then show ?case by simp
next
  case (Suc d)
  then obtain m where n: "n = Suc m" and dm: "d \<le> m" by (cases n) auto
  from Suc.prems(1) obtain nd where nd: "heap s root = Some nd"
    by (auto split: option.splits)
  let ?l = "if NodeKind_f nd = EXPRNode then LeftC nd else NullExp"
  let ?r = "if NodeKind_f nd = EXPRNode then RightC nd else NullExp"
  consider (null) "NodeKind_f nd = DUMMYNode"
    | (type) "NodeKind_f nd = EXPRNode" "NodeOpType nd = TypeIdOp"
    | (spec) "NodeKind_f nd = EXPRNode" "NodeOpType nd = SpecOp"
    | (plain) "NodeKind_f nd \<noteq> DUMMYNode" "\<not> (NodeKind_f nd = EXPRNode \<and> NodeOpType nd = TypeIdOp)"
        "\<not> (NodeKind_f nd = EXPRNode \<and> NodeOpType nd = SpecOp)"
    by blast
  then show ?case
  proof cases
    case null
    with nd show ?thesis by (simp add: n bnd_def IsNull_node)
  next
    case type
    with Suc.prems(1) nd have sp: "type_spine d s root" by simp
    have "typeidop_loop m (LeftC nd) root s = Return () s"
      using nd type by (intro type_spine_walk [OF sp dm]) (simp add: LeftChild_node)
    with nd type show ?thesis
      by (simp add: n bnd_def IsNull_node NodeOp_node LeftChild_node typeidop_def)
  next
    case spec
    with Suc.prems(1) nd have d: "0 < d" and nl: "null_tree s (LeftC nd)" by simp_all
    from d dm obtain m' where m: "m = Suc m'" by (cases m) auto
    from nl obtain c where c: "heap s (LeftC nd) = Some c" "NodeKind_f c = DUMMYNode"
      by (auto simp: null_tree_def split: option.splits)
    have "IsNull (LeftC nd) s = Return True s" using c by (simp add: IsNull_node)
    with nd spec show ?thesis
      by (simp add: n m bnd_def ret_def IsNull_node NodeOp_node LeftChild_node specop_def)
  next
    case plain
    with Suc.prems(1) nd
    have op: "\<not> has_handler (if NodeKind_f nd = EXPRNode then NodeOpType nd else 0)"
      and l: "quiet_tree d s ?l" and r: "quiet_tree d s ?r"
      by (auto split: if_splits)
    have ml: "MkST m ?l s = Return () s" by (rule Suc.IH [OF l dm])
    have mr: "MkST m ?r s = Return () s" by (rule Suc.IH [OF r dm])
    from nd plain op ml mr show ?thesis
      by (simp add: n bnd_def IsNull_node NodeOp_node LeftChild_node RightChild_node
            has_handler_def)
  qed
qed


text \<open>
  C1, amended. No handler tests whether a leaf is still an \<open>IDNode\<close> or already an
  \<open>STNode\<close>: a run of \<open>MkST\<close> on a use of a name (a \<open>VarOp\<close> node over a leaf holding
  \<open>v\<close>, which is the symbol index once the tree is analysed) looks \<open>v\<close> up as a name,
  whatever the kind of the leaf. With \<open>stack_top\<close> below \<open>STACK_SIZE\<close>:
  \<^item> if no frame that is not a marker has the name \<open>v\<close>, and the stack has room for one
    more frame, the run returns, having printed the line for an undeclared name twice
    (\<open>LookUp\<close> and \<open>varop\<close> each print it) and pushed a dummy frame for \<open>v\<close>; it
    replaces no node;
  \<^item> if the first such frame from the top has no symbol (a dummy frame), the run
    returns, having marked the frame as used and printed the line once; it replaces no
    node;
  \<^item> if the first such frame from the top has a symbol, and the next heap cell is free,
    the run replaces the leaf again, by a fresh \<open>STNode\<close> leaf holding that symbol (the
    symbol declared under the name \<open>v\<close>, not the symbol the leaf held), and goes on
    with the loop of \<open>varop\<close> from that symbol; if the symbol is an int variable and the
    use has no access chain, the run returns in that state.

  In the first two cases and for the int variable, the state returned differs from the
  state before the run. A run of \<open>MkST\<close> is a fixed point on a quiet tree: with enough
  fuel it returns and leaves the whole state (the tree, the symbol table, the scope stack
  and the output) as it is.
\<close>

theorem MkST_second_run:
  "(quiet_tree d s root \<and> d \<le> n \<longrightarrow> MkST n root s = Return () s)
   \<and> (use_of s node v ch \<and> stack_top s < STACK_SIZE \<longrightarrow>
        (case LookUp_scan (stack s) v (stack_top s) of
           None \<Rightarrow>
             - 1 \<le> stack_top s \<and> stack_top s < STACK_SIZE - 1 \<longrightarrow>
             MkST (Suc n) node s =
               Return () (s\<lparr>stack_top := stack_top s + 1,
                            stack := (stack s)(stack_top s + 1 :=
                              \<lparr>marker = False, name = v, st_ptr = 0, dummy = True, used = False\<rparr>),
                            out := out s @ [Semantic_Error UNDECLARATION v 0,
                                            Semantic_Error UNDECLARATION v 0]\<rparr>)
             \<and> MkST (Suc n) node s \<noteq> Return () s
         | Some i \<Rightarrow>
             if st_ptr (stack s i) = 0 then
               MkST (Suc n) node s =
                 Return () (s\<lparr>stack := (stack s)(i := (stack s i)\<lparr>used := True\<rparr>),
                              out := out s @ [Semantic_Error UNDECLARATION v 0]\<rparr>)
               \<and> MkST (Suc n) node s \<noteq> Return () s
             else
               heap s (brk s) = None \<longrightarrow>
               MkST (Suc n) node s =
                 varop_loop (MkST n) n n (case heap s node of Some nd \<Rightarrow> LeftC nd | None \<Rightarrow> 0) 0
                   \<lparr>v_st_ind0 = st_ptr (stack s i), v_rchild = ch, v_found = None\<rparr>
                   (bound_use node i s)
               \<and> (int_variable s (st_ptr (stack s i)) \<and> null_tree s ch \<and> 0 < n \<longrightarrow>
                    MkST (Suc n) node s = Return () (bound_use node i s)
                    \<and> MkST (Suc n) node s \<noteq> Return () s)))"
proof (intro conjI impI)
  assume "quiet_tree d s root \<and> d \<le> n"
  then show "MkST n root s = Return () s" using quiet_tree_walk by blast
next
  assume a: "use_of s node v ch \<and> stack_top s < STACK_SIZE"
  then have use: "use_of s node v ch" and top: "stack_top s < STACK_SIZE" by simp_all
  note mk = MkST_use [OF use, of n]
  show "case LookUp_scan (stack s) v (stack_top s) of
           None \<Rightarrow>
             - 1 \<le> stack_top s \<and> stack_top s < STACK_SIZE - 1 \<longrightarrow>
             MkST (Suc n) node s =
               Return () (s\<lparr>stack_top := stack_top s + 1,
                            stack := (stack s)(stack_top s + 1 :=
                              \<lparr>marker = False, name = v, st_ptr = 0, dummy = True, used = False\<rparr>),
                            out := out s @ [Semantic_Error UNDECLARATION v 0,
                                            Semantic_Error UNDECLARATION v 0]\<rparr>)
             \<and> MkST (Suc n) node s \<noteq> Return () s
         | Some i \<Rightarrow>
             if st_ptr (stack s i) = 0 then
               MkST (Suc n) node s =
                 Return () (s\<lparr>stack := (stack s)(i := (stack s i)\<lparr>used := True\<rparr>),
                              out := out s @ [Semantic_Error UNDECLARATION v 0]\<rparr>)
               \<and> MkST (Suc n) node s \<noteq> Return () s
             else
               heap s (brk s) = None \<longrightarrow>
               MkST (Suc n) node s =
                 varop_loop (MkST n) n n (case heap s node of Some nd \<Rightarrow> LeftC nd | None \<Rightarrow> 0) 0
                   \<lparr>v_st_ind0 = st_ptr (stack s i), v_rchild = ch, v_found = None\<rparr>
                   (bound_use node i s)
               \<and> (int_variable s (st_ptr (stack s i)) \<and> null_tree s ch \<and> 0 < n \<longrightarrow>
                    MkST (Suc n) node s = Return () (bound_use node i s)
                    \<and> MkST (Suc n) node s \<noteq> Return () s)"
  proof (cases "LookUp_scan (stack s) v (stack_top s)")
    case None
    have "MkST (Suc n) node s \<noteq> Return () s"
      if e: "MkST (Suc n) node s =
               Return () (s\<lparr>stack_top := stack_top s + 1,
                            stack := (stack s)(stack_top s + 1 :=
                              \<lparr>marker = False, name = v, st_ptr = 0, dummy = True, used = False\<rparr>),
                            out := out s @ [Semantic_Error UNDECLARATION v 0,
                                            Semantic_Error UNDECLARATION v 0]\<rparr>)"
    proof
      assume "MkST (Suc n) node s = Return () s"
      with e have "out (s\<lparr>stack_top := stack_top s + 1,
                            stack := (stack s)(stack_top s + 1 :=
                              \<lparr>marker = False, name = v, st_ptr = 0, dummy = True, used = False\<rparr>),
                            out := out s @ [Semantic_Error UNDECLARATION v 0,
                                            Semantic_Error UNDECLARATION v 0]\<rparr>) = out s"
        by simp
      then show False by simp
    qed
    with None varop_unknown_name [OF use None, of "MkST n" n 0] mk show ?thesis
      by (simp del: MkST.simps)
  next
    case (Some i)
    show ?thesis
    proof (cases "st_ptr (stack s i) = 0")
      case True
      have e: "MkST (Suc n) node s =
                 Return () (s\<lparr>stack := (stack s)(i := (stack s i)\<lparr>used := True\<rparr>),
                              out := out s @ [Semantic_Error UNDECLARATION v 0]\<rparr>)"
        using varop_dummy_frame [OF use Some True top] mk by (simp del: MkST.simps)
      have "MkST (Suc n) node s \<noteq> Return () s"
      proof
        assume "MkST (Suc n) node s = Return () s"
        with e have "out (s\<lparr>stack := (stack s)(i := (stack s i)\<lparr>used := True\<rparr>),
                              out := out s @ [Semantic_Error UNDECLARATION v 0]\<rparr>) = out s"
          by simp
        then show False by simp
      qed
      with e Some True show ?thesis by (simp del: MkST.simps)
    next
      case False
      have "heap s (brk s) = None \<longrightarrow>
               MkST (Suc n) node s =
                 varop_loop (MkST n) n n (case heap s node of Some nd \<Rightarrow> LeftC nd | None \<Rightarrow> 0) 0
                   \<lparr>v_st_ind0 = st_ptr (stack s i), v_rchild = ch, v_found = None\<rparr>
                   (bound_use node i s)
               \<and> (int_variable s (st_ptr (stack s i)) \<and> null_tree s ch \<and> 0 < n \<longrightarrow>
                    MkST (Suc n) node s = Return () (bound_use node i s)
                    \<and> MkST (Suc n) node s \<noteq> Return () s)"
      proof (intro conjI impI)
        assume free: "heap s (brk s) = None"
        show p: "MkST (Suc n) node s =
                 varop_loop (MkST n) n n (case heap s node of Some nd \<Rightarrow> LeftC nd | None \<Rightarrow> 0) 0
                   \<lparr>v_st_ind0 = st_ptr (stack s i), v_rchild = ch, v_found = None\<rparr>
                   (bound_use node i s)"
          using varop_prefix [OF use Some refl False top free] mk by (simp del: MkST.simps)
        assume b: "int_variable s (st_ptr (stack s i)) \<and> null_tree s ch \<and> 0 < n"
        then obtain f where f: "n = Suc f" by (cases n) auto
        from b have iv: "int_variable s (st_ptr (stack s i))" and nl: "null_tree s ch" by simp_all
        show r: "MkST (Suc n) node s = Return () (bound_use node i s)"
          unfolding p by (subst (2) f) (rule varop_loop_int_variable [OF iv nl use free])
        show "MkST (Suc n) node s \<noteq> Return () s"
        proof
          assume "MkST (Suc n) node s = Return () s"
          with r have "brk (bound_use node i s) = brk s" by simp
          then show False by simp
        qed
      qed
      then show ?thesis by (simp only: Some option.case False if_False)
    qed
  qed
qed

theorem MkST_second_run_witness:
  "quiet_tree 3 sum_tree_state 2 \<and> MkST 5 2 sum_tree_state = Return () sum_tree_state
   \<and> quiet_tree 3 two_vars_state 2 \<and> MkST 3 2 two_vars_state = Return () two_vars_state
   \<and> use_of analysed_once_state 4 1 NullExp
   \<and> MkST 1 4 analysed_once_state =
       Return () (analysed_once_state
         \<lparr>stack_top := 4,
          stack := (stack analysed_once_state)
            (4 := \<lparr>marker = False, name = 1, st_ptr = 0, dummy = True, used = False\<rparr>),
          out := [Semantic_Error UNDECLARATION 1 0, Semantic_Error UNDECLARATION 1 0]\<rparr>)
   \<and> MkST 1 4 (analysed_once_state
         \<lparr>stack_top := 4,
          stack := (stack analysed_once_state)
            (4 := \<lparr>marker = False, name = 1, st_ptr = 0, dummy = True, used = False\<rparr>),
          out := [Semantic_Error UNDECLARATION 1 0, Semantic_Error UNDECLARATION 1 0]\<rparr>) =
       Return () (analysed_once_state
         \<lparr>stack_top := 4,
          stack := (stack analysed_once_state)
            (4 := \<lparr>marker = False, name = 1, st_ptr = 0, dummy = True, used = True\<rparr>),
          out := [Semantic_Error UNDECLARATION 1 0, Semantic_Error UNDECLARATION 1 0,
                  Semantic_Error UNDECLARATION 1 0]\<rparr>)
   \<and> use_of x_used_state 4 2 NullExp
   \<and> heap x_used_state 6
       = Some \<lparr>NodeKind_f = STNode, NodeOpType = 0, IntVal_f = 2, LeftC = NullExp, RightC = NullExp\<rparr>
   \<and> MkST 2 4 x_used_state = Return () (bound_use 4 2 x_used_state)
   \<and> heap (bound_use 4 2 x_used_state) 4
       = Some \<lparr>NodeKind_f = EXPRNode, NodeOpType = VarOp, IntVal_f = 0, LeftC = 7, RightC = NullExp\<rparr>
   \<and> heap (bound_use 4 2 x_used_state) 7
       = Some \<lparr>NodeKind_f = STNode, NodeOpType = 0, IntVal_f = 1, LeftC = NullExp, RightC = NullExp\<rparr>"
proof -
  let ?a = "analysed_once_state
         \<lparr>stack_top := 4,
          stack := (stack analysed_once_state)
            (4 := \<lparr>marker = False, name = 1, st_ptr = 0, dummy = True, used = False\<rparr>),
          out := [Semantic_Error UNDECLARATION 1 0, Semantic_Error UNDECLARATION 1 0]\<rparr>"
  have q: "quiet_tree 3 two_vars_state 2"
    by (simp add: eval_nat_numeral two_vars_state_def dummy_node_def)
  have q': "quiet_tree 3 sum_tree_state 2"
    by (simp add: eval_nat_numeral sum_tree_state_def dummy_node_def has_handler_def)
  have u1: "use_of analysed_once_state 4 1 NullExp"
    by (simp add: use_of_def analysed_once_state_def)
  have u2: "use_of ?a 4 1 NullExp"
    by (simp add: use_of_def analysed_once_state_def)
  have u3: "use_of x_used_state 4 2 NullExp"
    by (simp add: use_of_def x_used_state_def bound_use_def two_vars_state_def)
  have l1: "LookUp_scan (stack analysed_once_state) 1 (stack_top analysed_once_state) = None"
    by (simp add: LookUp_scan.simps analysed_once_state_def)
  have l2: "LookUp_scan (stack ?a) 1 (stack_top ?a) = Some 4"
    by (simp add: LookUp_scan.simps analysed_once_state_def)
  have l3: "LookUp_scan (stack x_used_state) 2 (stack_top x_used_state) = Some 2"
    by (simp add: LookUp_scan.simps x_used_state_def bound_use_def two_vars_state_def)
  have iv: "int_variable x_used_state 1"
    by (simp add: int_variable_def symtab_eval x_used_state_def bound_use_def two_vars_state_def)
  have nl: "null_tree x_used_state NullExp"
    by (simp add: null_tree_def x_used_state_def bound_use_def two_vars_state_def dummy_node_def)
  have b1: "stack_top analysed_once_state = 3" "out analysed_once_state = []"
    by (simp_all add: analysed_once_state_def)
  have b2: "stack_top ?a = 4" "st_ptr (stack ?a 4) = 0" "out ?a = out ?a" by simp_all
  have b3: "stack_top x_used_state = 3" "st_ptr (stack x_used_state 2) = 1"
    "heap x_used_state (brk x_used_state) = None"
    by (simp_all add: x_used_state_def bound_use_def two_vars_state_def)
  note t = MkST_second_run
  from t [of 3 two_vars_state 2 3] q
  have r0: "MkST 3 2 two_vars_state = Return () two_vars_state" by (simp del: MkST.simps)
  from t [of 3 sum_tree_state 2 5] q'
  have r0': "MkST 5 2 sum_tree_state = Return () sum_tree_state" by (simp del: MkST.simps)
  from t [of 0 analysed_once_state 0 0 4 1 NullExp] u1 l1 b1
  have r1: "MkST 1 4 analysed_once_state = Return () ?a"
    by (simp del: MkST.simps)
  from t [of 0 ?a 0 0 4 1 NullExp] u2 l2
  have r2: "MkST 1 4 ?a = Return () (analysed_once_state
         \<lparr>stack_top := 4,
          stack := (stack analysed_once_state)
            (4 := \<lparr>marker = False, name = 1, st_ptr = 0, dummy = True, used = True\<rparr>),
          out := [Semantic_Error UNDECLARATION 1 0, Semantic_Error UNDECLARATION 1 0,
                  Semantic_Error UNDECLARATION 1 0]\<rparr>)"
    by (simp del: MkST.simps)
  from t [of 0 x_used_state 0 1 4 2 NullExp] u3 l3 iv nl b3
  have r3: "MkST 2 4 x_used_state = Return () (bound_use 4 2 x_used_state)"
    by (auto simp del: MkST.simps varop_loop.simps simp add: numeral_2_eq_2)
  have h: "heap x_used_state 6
       = Some \<lparr>NodeKind_f = STNode, NodeOpType = 0, IntVal_f = 2, LeftC = NullExp, RightC = NullExp\<rparr>"
    "heap (bound_use 4 2 x_used_state) 4
       = Some \<lparr>NodeKind_f = EXPRNode, NodeOpType = VarOp, IntVal_f = 0, LeftC = 7, RightC = NullExp\<rparr>"
    "heap (bound_use 4 2 x_used_state) 7
       = Some \<lparr>NodeKind_f = STNode, NodeOpType = 0, IntVal_f = 1, LeftC = NullExp, RightC = NullExp\<rparr>"
    by (simp_all add: x_used_state_def bound_use_def two_vars_state_def)
  from q' r0' q r0 u1 r1 r2 u3 r3 h show ?thesis by (simp del: MkST.simps)
qed

section \<open>What a run of the analyzer leaves alone\<close>

text \<open>
  A run of \<open>MkST\<close> on a tree inside \<open>W\<close> writes only to nodes in \<open>W\<close> and to nodes it
  allocates, and it never changes the name of a symbol: every primitive keeps the two
  invariants \<open>framed\<close> and \<open>named\<close>, and so does every handler.
\<close>

lemma keepsI:
  assumes "\<And>s x s'. I s \<Longrightarrow> f s = Return x s' \<Longrightarrow> I s' \<and> R x"
  shows "keeps I f R"
  unfolding keeps_def
proof (intro allI impI)
  fix s assume "I s"
  then show "case f s of Return x s' \<Rightarrow> I s' \<and> R x | _ \<Rightarrow> True"
    using assms [of s] by (cases "f s") simp_all
qed

lemma keepsD:
  assumes "keeps I f R" "I s" "f s = Return x s'"
  shows "I s' \<and> R x"
proof -
  from assms(1,2) have "case f s of Return x s' \<Rightarrow> I s' \<and> R x | _ \<Rightarrow> True"
    unfolding keeps_def by blast
  with assms(3) show ?thesis by simp
qed

lemma keeps_bnd:
  assumes "keeps I f (\<lambda>x. keeps I (g x) R)"
  shows "keeps I (bnd f g) R"
proof (rule keepsI)
  fix s x s'
  assume I: "I s" and r: "bnd f g s = Return x s'"
  from r obtain y t where f: "f s = Return y t" and g: "g y t = Return x s'"
    by (cases "f s") (simp_all add: bnd_def)
  from keepsD [OF assms I f] have "I t" "keeps I (g y) R" by simp_all
  from keepsD [OF this(2,1) g] show "I s' \<and> R x" .
qed

lemma keeps_ret: "R x \<Longrightarrow> keeps I (ret x) R"
  by (simp add: keeps_def)

lemma keeps_if: "(c \<Longrightarrow> keeps I f R) \<Longrightarrow> (\<not> c \<Longrightarrow> keeps I g R) \<Longrightarrow> keeps I (if c then f else g) R"
  by simp

lemma keeps_case_option:
  "(r = None \<Longrightarrow> keeps I f R) \<Longrightarrow> (\<And>v. r = Some v \<Longrightarrow> keeps I (g v) R)
   \<Longrightarrow> keeps I (case r of None \<Rightarrow> f | Some v \<Rightarrow> g v) R"
  by (cases r) auto

lemma keeps_no_return:
  "keeps I (\<lambda>s. Exit c s) R" "keeps I (\<lambda>s. Undefined) R" "keeps I (\<lambda>s. OutOfFuel) R"
  by (simp_all add: keeps_def)

lemma framed_out [simp]: "framed W b h0 (s\<lparr>out := x\<rparr>) = framed W b h0 s"
  by (simp add: framed_def)

lemma named_out [simp]: "named tb sy c0 nm (s\<lparr>out := x\<rparr>) = named tb sy c0 nm s"
  by (simp add: named_def)

lemma keeps_printf: "R () \<Longrightarrow> keeps (kept W b h0 tb sy c0 nm) (printf ev) R"
  by (simp add: keeps_def printf_def)

lemma keeps_error_msg: "R () \<Longrightarrow> keeps (kept W b h0 tb sy c0 nm) (error_msg t a i q) R"
  by (simp add: keeps_def error_msg_def Let_def)

lemma keeps_loc_str: "(\<And>x. R x) \<Longrightarrow> keeps I (loc_str x) R"
  by (simp add: keeps_def loc_str_def)

lemma keeps_NodeKind: "(\<And>x. R x) \<Longrightarrow> keeps I (NodeKind p) R"
  by (auto simp: keeps_def NodeKind_def deref_def bnd_def split: option.splits)

lemma keeps_IsNull: "(\<And>x. R x) \<Longrightarrow> keeps I (IsNull p) R"
  by (auto simp: keeps_def IsNull_def NodeKind_def deref_def bnd_def split: option.splits)

lemma keeps_NodeOp: "(\<And>x. R x) \<Longrightarrow> keeps I (NodeOp p) R"
  by (auto simp: keeps_def NodeOp_def NodeKind_def deref_def bnd_def split: option.splits)

lemma keeps_IntVal: "(\<And>x. R x) \<Longrightarrow> keeps (kept W b h0 tb sy c0 nm) (IntVal p) R"
  by (auto simp: keeps_def IntVal_def NodeKind_def deref_def bnd_def printf_def split: option.splits)

lemma framed_child:
  assumes "framed W b h0 s" "ok_ptr W b p" "heap s p = Some nd"
  shows "ok_ptr W b (if NodeKind_f nd = EXPRNode then LeftC nd else NullExp)
       \<and> ok_ptr W b (if NodeKind_f nd = EXPRNode then RightC nd else NullExp)"
proof (cases "p = NullExp")
  case True
  with assms have "heap s p = h0 NullExp" by (simp add: framed_def)
  with assms show ?thesis by (auto simp: framed_def ok_ptr_def split: option.splits)
next
  case False
  with assms show ?thesis by (auto simp: framed_def ok_ptr_def)
qed

lemma keeps_LeftChild:
  "(\<And>q. (ok_ptr W b p \<longrightarrow> ok_ptr W b q) \<Longrightarrow> R q) \<Longrightarrow> keeps (kept W b h0 tb sy c0 nm) (LeftChild p) R"
proof (rule keepsI)
  fix s x s'
  assume R: "\<And>q. (ok_ptr W b p \<longrightarrow> ok_ptr W b q) \<Longrightarrow> R q"
    and I: "framed W b h0 s \<and> named tb sy c0 nm s" and r: "LeftChild p s = Return x s'"
  from r obtain nd where nd: "heap s p = Some nd"
    by (auto simp: LeftChild_def NodeKind_def deref_def bnd_def split: option.splits)
  with r have x: "s' = s" "x = (if NodeKind_f nd = EXPRNode then LeftC nd else NullExp)"
    by (auto simp: LeftChild_node)
  with framed_child [OF _ _ nd] I have "ok_ptr W b p \<longrightarrow> ok_ptr W b x" by auto
  with R I x show "(framed W b h0 s' \<and> named tb sy c0 nm s') \<and> R x" by simp
qed

lemma keeps_RightChild:
  "(\<And>q. (ok_ptr W b p \<longrightarrow> ok_ptr W b q) \<Longrightarrow> R q) \<Longrightarrow> keeps (kept W b h0 tb sy c0 nm) (RightChild p) R"
proof (rule keepsI)
  fix s x s'
  assume R: "\<And>q. (ok_ptr W b p \<longrightarrow> ok_ptr W b q) \<Longrightarrow> R q"
    and I: "framed W b h0 s \<and> named tb sy c0 nm s" and r: "RightChild p s = Return x s'"
  from r obtain nd where nd: "heap s p = Some nd"
    by (auto simp: RightChild_def NodeKind_def deref_def bnd_def split: option.splits)
  with r have x: "s' = s" "x = (if NodeKind_f nd = EXPRNode then RightC nd else NullExp)"
    by (auto simp: RightChild_node)
  with framed_child [OF _ _ nd] I have "ok_ptr W b p \<longrightarrow> ok_ptr W b x" by auto
  with R I x show "(framed W b h0 s' \<and> named tb sy c0 nm s') \<and> R x" by simp
qed

lemma framedI:
  assumes "\<And>p. p \<notin> W \<Longrightarrow> p < b \<Longrightarrow> heap s' p = h0 p"
      and "b \<le> brk s'"
      and "\<And>p nd. p \<in> W \<or> b \<le> p \<Longrightarrow> heap s' p = Some nd \<Longrightarrow> NodeKind_f nd = EXPRNode
             \<Longrightarrow> ok_ptr W b (LeftC nd) \<and> ok_ptr W b (RightC nd)"
      and "framed W b h0 s"
  shows "framed W b h0 s'"
  using assms(4) unfolding framed_def
  apply (intro conjI allI impI)
  using assms(1) apply blast
  using assms(2) apply blast
  using assms(3) apply blast
  using assms(3) apply blast
     apply blast
    apply blast
  apply blast
  done

lemma framed_closed:
  "framed W b h0 s \<Longrightarrow> p \<in> W \<or> b \<le> p \<Longrightarrow> heap s p = Some nd \<Longrightarrow> NodeKind_f nd = EXPRNode
   \<Longrightarrow> ok_ptr W b (LeftC nd) \<and> ok_ptr W b (RightC nd)"
  by (simp add: framed_def)

lemma framed_same: "framed W b h0 s \<Longrightarrow> p \<notin> W \<Longrightarrow> p < b \<Longrightarrow> heap s p = h0 p"
  by (simp add: framed_def)

lemma framed_brk: "framed W b h0 s \<Longrightarrow> b \<le> brk s"
  by (simp add: framed_def)

lemma keeps_MakeLeaf:
  "(\<And>q. ok_ptr W b q \<Longrightarrow> R q) \<Longrightarrow> keeps (kept W b h0 tb sy c0 nm) (MakeLeaf k v) R"
proof (rule keepsI)
  fix s x s'
  assume R: "\<And>q. ok_ptr W b q \<Longrightarrow> R q"
    and I: "framed W b h0 s \<and> named tb sy c0 nm s" and r: "MakeLeaf k v s = Return x s'"
  from I have fr: "framed W b h0 s" and na: "named tb sy c0 nm s" by auto
  from r have x: "x = brk s" and s': "s' = s\<lparr>heap := (heap s)(brk s := Some \<lparr>NodeKind_f = k, NodeOpType = 0, IntVal_f = v,
                                             LeftC = NullExp, RightC = NullExp\<rparr>), brk := brk s + 1\<rparr>"
    by (auto simp: MakeLeaf_def split: if_splits)
  note bb = framed_brk [OF fr]
  then have ok: "ok_ptr W b x" by (simp add: x ok_ptr_def)
  have "framed W b h0 s'"
  proof (rule framedI [OF _ _ _ fr])
    fix p assume "p \<notin> W" "p < b"
    then show "heap s' p = h0 p" using bb framed_same [OF fr, of p] by (simp add: s')
  next
    show "b \<le> brk s'" using bb by (simp add: s')
  next
    fix p nd assume "p \<in> W \<or> b \<le> p" "heap s' p = Some nd" "NodeKind_f nd = EXPRNode"
    then show "ok_ptr W b (LeftC nd) \<and> ok_ptr W b (RightC nd)"
      using framed_closed [OF fr, of p nd] by (cases "p = brk s") (auto simp: s' ok_ptr_def)
  qed
  moreover have "named tb sy c0 nm s'" using na by (simp add: s' named_def)
  ultimately show "(framed W b h0 s' \<and> named tb sy c0 nm s') \<and> R x" using R ok by simp
qed

lemma framed_not_dummy:
  assumes "framed W b h0 s" "ok_ptr W b p" "heap s p = Some nd" "NodeKind_f nd = EXPRNode"
  shows "p \<in> W \<or> b \<le> p"
proof (cases "p = NullExp")
  case True
  with assms have "heap s p = h0 NullExp" by (simp add: framed_def)
  with assms show ?thesis by (auto simp: framed_def split: option.splits)
next
  case False
  with assms show ?thesis by (auto simp: ok_ptr_def)
qed

lemma framed_store:
  assumes fr: "framed W b h0 s" and T: "T \<in> W \<or> b \<le> T"
      and nd': "NodeKind_f nd' = EXPRNode \<Longrightarrow> ok_ptr W b (LeftC nd') \<and> ok_ptr W b (RightC nd')"
  shows "framed W b h0 (s\<lparr>heap := (heap s)(T := Some nd')\<rparr>)"
proof (rule framedI [OF _ _ _ fr])
  fix p assume "p \<notin> W" "p < b"
  then show "heap (s\<lparr>heap := (heap s)(T := Some nd')\<rparr>) p = h0 p"
    using T framed_same [OF fr, of p] by auto
next
  show "b \<le> brk (s\<lparr>heap := (heap s)(T := Some nd')\<rparr>)" using framed_brk [OF fr] by simp
next
  fix p nd
  assume "p \<in> W \<or> b \<le> p" "heap (s\<lparr>heap := (heap s)(T := Some nd')\<rparr>) p = Some nd"
         "NodeKind_f nd = EXPRNode"
  then show "ok_ptr W b (LeftC nd) \<and> ok_ptr W b (RightC nd)"
    using framed_closed [OF fr, of p nd] nd' by (cases "p = T") auto
qed

lemma keeps_SetLeftChild:
  assumes "ok_ptr W b T" "ok_ptr W b c" "R ()"
  shows "keeps (kept W b h0 tb sy c0 nm) (SetLeftChild T c) R"
proof (rule keepsI)
  fix s x s'
  assume I: "framed W b h0 s \<and> named tb sy c0 nm s" and r: "SetLeftChild T c s = Return x s'"
  from I have fr: "framed W b h0 s" and na: "named tb sy c0 nm s" by auto
  from r obtain nd where nd: "heap s T = Some nd"
    by (auto simp: SetLeftChild_def NodeKind_def deref_def bnd_def split: option.splits)
  show "(framed W b h0 s' \<and> named tb sy c0 nm s') \<and> R x"
  proof (cases "NodeKind_f nd = EXPRNode")
    case False
    with r nd I assms show ?thesis
      by (auto simp: SetLeftChild_def NodeKind_node printf_def)
  next
    case True
    with r nd have s': "s' = s\<lparr>heap := (heap s)(T := Some (nd\<lparr>LeftC := c\<rparr>))\<rparr>"
      by (auto simp: SetLeftChild_def NodeKind_node deref_def bnd_def)
    note T = framed_not_dummy [OF fr assms(1) nd True]
    have "ok_ptr W b (LeftC (nd\<lparr>LeftC := c\<rparr>)) \<and> ok_ptr W b (RightC (nd\<lparr>LeftC := c\<rparr>))"
      using framed_closed [OF fr T nd True] assms(2) by simp
    then have "framed W b h0 s'" unfolding s' by (intro framed_store [OF fr T]) 
    moreover have "named tb sy c0 nm s'" using na by (simp add: s' named_def)
    ultimately show ?thesis using assms(3) by simp
  qed
qed

lemma keeps_SetRightChild:
  assumes "ok_ptr W b T" "ok_ptr W b c" "R ()"
  shows "keeps (kept W b h0 tb sy c0 nm) (SetRightChild T c) R"
proof (rule keepsI)
  fix s x s'
  assume I: "framed W b h0 s \<and> named tb sy c0 nm s" and r: "SetRightChild T c s = Return x s'"
  from I have fr: "framed W b h0 s" and na: "named tb sy c0 nm s" by auto
  from r obtain nd where nd: "heap s T = Some nd"
    by (auto simp: SetRightChild_def NodeKind_def deref_def bnd_def split: option.splits)
  show "(framed W b h0 s' \<and> named tb sy c0 nm s') \<and> R x"
  proof (cases "NodeKind_f nd = EXPRNode")
    case False
    with r nd I assms show ?thesis
      by (auto simp: SetRightChild_def NodeKind_node printf_def)
  next
    case True
    with r nd have s': "s' = s\<lparr>heap := (heap s)(T := Some (nd\<lparr>RightC := c\<rparr>))\<rparr>"
      by (auto simp: SetRightChild_def NodeKind_node deref_def bnd_def)
    note T = framed_not_dummy [OF fr assms(1) nd True]
    have "ok_ptr W b (LeftC (nd\<lparr>RightC := c\<rparr>)) \<and> ok_ptr W b (RightC (nd\<lparr>RightC := c\<rparr>))"
      using framed_closed [OF fr T nd True] assms(2) by simp
    then have "framed W b h0 s'" unfolding s' by (intro framed_store [OF fr T]) 
    moreover have "named tb sy c0 nm s'" using na by (simp add: s' named_def)
    ultimately show ?thesis using assms(3) by simp
  qed
qed

lemma keeps_free:
  assumes "ok_ptr W b p" "R ()"
  shows "keeps (kept W b h0 tb sy c0 nm) (free p) R"
proof (rule keepsI)
  fix s x s'
  assume I: "framed W b h0 s \<and> named tb sy c0 nm s" and r: "free p s = Return x s'"
  from I have fr: "framed W b h0 s" and na: "named tb sy c0 nm s" by auto
  from r have p: "p \<noteq> NullExp" and s': "s' = s\<lparr>heap := (heap s)(p := None)\<rparr>"
    by (auto simp: free_def split: if_splits)
  from p assms(1) have pw: "p \<in> W \<or> b \<le> p" by (simp add: ok_ptr_def)
  have "framed W b h0 s'"
  proof (rule framedI [OF _ _ _ fr])
    fix q assume "q \<notin> W" "q < b"
    then show "heap s' q = h0 q" using pw framed_same [OF fr, of q] by (auto simp: s')
  next
    show "b \<le> brk s'" using framed_brk [OF fr] by (simp add: s')
  next
    fix q nd assume "q \<in> W \<or> b \<le> q" "heap s' q = Some nd" "NodeKind_f nd = EXPRNode"
    then show "ok_ptr W b (LeftC nd) \<and> ok_ptr W b (RightC nd)"
      using framed_closed [OF fr, of q nd] by (cases "q = p") (auto simp: s')
  qed
  moreover have "named tb sy c0 nm s'" using na by (simp add: s' named_def)
  ultimately show "(framed W b h0 s' \<and> named tb sy c0 nm s') \<and> R x" using assms(2) by simp
qed

text \<open>The operations of the symbol table.\<close>

lemma only_stack_kept:
  "only_stack s s' \<Longrightarrow> framed W b h0 s \<and> named tb sy c0 nm s \<Longrightarrow> framed W b h0 s' \<and> named tb sy c0 nm s'"
  by (auto simp: only_stack_def framed_def named_def)

lemma keeps_only_stack:
  assumes "\<And>s x s'. f s = Return x s' \<Longrightarrow> only_stack s s'" and "\<And>x. R x"
  shows "keeps (kept W b h0 tb sy c0 nm) f R"
proof (rule keepsI)
  fix s x s'
  assume I: "framed W b h0 s \<and> named tb sy c0 nm s" and r: "f s = Return x s'"
  from only_stack_kept [OF assms(1) [OF r] I] assms(2)
  show "(framed W b h0 s' \<and> named tb sy c0 nm s') \<and> R x" by simp
qed

lemma Push_only_stack: "Push m i p d s = Return x s' \<Longrightarrow> only_stack s s'"
  by (auto simp: Push_def bnd_def error_msg_def Let_def only_stack_def split: if_splits)

lemma GetAttr_only_stack: "GetAttr sp k s = Return x s' \<Longrightarrow> only_stack s s'"
  by (auto simp: GetAttr_def bnd_def pure_of_def printf_def only_stack_def split: option.splits if_splits)

lemma LookUp_only_stack: "LookUp i s = Return x s' \<Longrightarrow> only_stack s s'"
  by (auto simp: LookUp_def Push_def bnd_def error_msg_def Let_def only_stack_def
           split: option.splits if_splits)

lemma OpenBlock_only_stack: "OpenBlock s = Return x s' \<Longrightarrow> only_stack s s'"
  by (auto simp: OpenBlock_def Push_def bnd_def error_msg_def Let_def only_stack_def split: if_splits)

lemma CloseBlock_only_stack: "CloseBlock s = Return x s' \<Longrightarrow> only_stack s s'"
  by (auto simp: CloseBlock_def bnd_def pure_of_def only_stack_def split: option.splits)

lemmas keeps_GetAttr = keeps_only_stack [of "GetAttr sp k" for sp k, OF GetAttr_only_stack]

lemmas keeps_LookUp = keeps_only_stack [of "LookUp i" for i, OF LookUp_only_stack]

lemmas keeps_OpenBlock = keeps_only_stack [of OpenBlock, OF OpenBlock_only_stack]

lemmas keeps_CloseBlock = keeps_only_stack [of CloseBlock, OF CloseBlock_only_stack]

lemma IsAttr_loop_Some:
  assumes "IsAttr_loop A k j = Some i" and "i \<noteq> 0"
  shows "attr_num (A i) = k \<and> 0 < i \<and> i < ATTR_SIZE"
proof -
  have "i \<noteq> 0 \<longrightarrow> attr_num (A i) = k \<and> 0 < i \<and> i < ATTR_SIZE"
    by (rule IsAttr_loop.raw_induct
          [where P = "\<lambda>A k j i. i \<noteq> 0 \<longrightarrow> attr_num (A i) = k \<and> 0 < i \<and> i < ATTR_SIZE", OF _ assms(1)])
       (auto split: if_splits)
  with assms(2) show ?thesis by simp
qed

lemma SetAttr_find_link:
  assumes "SetAttr_find A k p j = Some (q, nxt)"
  shows "q = p \<or> (\<exists>c. q = At_next c)"
proof -
  have "fst (q, nxt) = p \<or> (\<exists>c. fst (q, nxt) = At_next c)"
    by (rule SetAttr_find.raw_induct
          [where P = "\<lambda>A k p j r. fst r = p \<or> (\<exists>c. fst r = At_next c)", OF _ assms])
       (auto split: if_splits, blast)
  then show ?thesis by simp
qed

lemma SetAttr_kept:
  assumes r: "SetAttr sp k v s = Return x s'" and na: "named tb sy c0 nm s"
      and k: "1 < k \<or> st s sp = 0"
  shows "named tb sy c0 nm s' \<and> heap s' = heap s \<and> brk s' = brk s"
proof -
  from r obtain i where i: "IsAttr sp k s = Some i"
    by (cases "IsAttr sp k s") (simp_all add: SetAttr_def)
  then have loop: "IsAttr_loop (attrarray s) k (st s sp) = Some i"
    by (simp add: IsAttr_def split: if_splits)
  show ?thesis
  proof (cases "i = 0")
    case False
    with r i have s': "s' = s\<lparr>attrarray := (attrarray s)(i := (attrarray s i)\<lparr>attr_val := v\<rparr>)\<rparr>"
      by (simp add: SetAttr_def)
    from IsAttr_loop_Some [OF loop False] have ik: "attr_num (attrarray s i) = k" by simp
    have "1 < k" using k loop False by auto
    with ik na have "i \<noteq> c0" by (auto simp: named_def)
    with na show ?thesis by (simp add: s' named_def)
  next
    case True
    with r i obtain p nxt where
      f: "SetAttr_find (attrarray s) k (At_st sp) (st s sp) = Some (p, nxt)"
      by (cases "SetAttr_find (attrarray s) k (At_st sp) (st s sp)") (auto simp: SetAttr_def)
    let ?top = "attr_top s + 1"
    let ?t = "s\<lparr>attr_top := ?top,
                  attrarray := (attrarray s)(?top := \<lparr>attr_num = to_char k, attr_val = v, next_attr = nxt\<rparr>)\<rparr>"
    from r i True f have s': "s' = store_link p ?top ?t"
      by (auto simp: SetAttr_def bnd_def error_msg_def Let_def split: if_splits)
    have p: "p \<noteq> At_st sy"
    proof
      assume eq: "p = At_st sy"
      with SetAttr_find_link [OF f] have sp: "sp = sy" by auto
      with na k have k1: "1 < k" by (auto simp: named_def)
      from na have c0: "st s sy = c0" "0 < c0" "c0 < ATTR_SIZE" "attr_num (attrarray s c0) = NAME_ATTR"
        by (simp_all add: named_def)
      with k1 f sp have "SetAttr_find (attrarray s) k (At_next c0) (next_attr (attrarray s c0)) = Some (p, nxt)"
        by (simp add: SetAttr_find_next)
      from SetAttr_find_link [OF this] eq show False by auto
    qed
    from na have "c0 \<noteq> ?top" by (simp add: named_def)
    with na p show ?thesis
      by (cases p) (auto simp: s' store_link_def named_def)
  qed
qed

lemma keeps_SetAttr:
  assumes "1 < k" "R ()"
  shows "keeps (kept W b h0 tb sy c0 nm) (SetAttr sp k v) R"
proof (rule keepsI)
  fix s x s'
  assume I: "framed W b h0 s \<and> named tb sy c0 nm s" and r: "SetAttr sp k v s = Return x s'"
  from SetAttr_kept [OF r, of tb sy c0 nm] I assms(1)
  have "named tb sy c0 nm s'" "heap s' = heap s" "brk s' = brk s" by simp_all
  moreover from this I have "framed W b h0 s'" by (auto simp: framed_def)
  ultimately show "(framed W b h0 s' \<and> named tb sy c0 nm s') \<and> R x" using assms(2) by simp
qed

lemma InsertEntry_kept:
  assumes r: "InsertEntry ident s = Return x s'" and na: "named tb sy c0 nm s"
  shows "named tb sy c0 nm s' \<and> heap s' = heap s \<and> brk s' = brk s"
proof -
  from r obtain here where here: "LookUpHere ident s = Some here"
    by (cases "LookUpHere ident s") (simp_all add: InsertEntry_def)
  show ?thesis
  proof (cases "here = 0")
    case False
    with r here na show ?thesis by (auto simp: InsertEntry_def named_def)
  next
    case True
    let ?top = "st_top s + 1"
    let ?s1 = "s\<lparr>st_top := ?top, st := (st s)(?top := 0)\<rparr>"
    from r here True have room: "st_top s < ST_SIZE - 1" "0 \<le> ?top"
      by (auto simp: InsertEntry_def bnd_def error_msg_def Let_def split: if_splits)
    with r here True have
      "bnd (SetAttr ?top NAME_ATTR ident)
         (\<lambda>_. bnd (\<lambda>s. SetAttr ?top NEST_ATTR (nesting s) s)
            (\<lambda>_. bnd (Push False ident ?top False) (\<lambda>_. ret ?top))) ?s1 = Return x s'"
      by (simp add: InsertEntry_def bnd_def Let_def)
    then obtain s2 s3 s4 where
      a1: "SetAttr ?top NAME_ATTR ident ?s1 = Return () s2"
      and a2: "SetAttr ?top NEST_ATTR (nesting s2) s2 = Return () s3"
      and a3: "Push False ident ?top False s3 = Return () s4" and e: "s' = s4"
      by (auto dest!: bnd_ReturnD)
    from na have n1: "named tb sy c0 nm ?s1" by (auto simp: named_def)
    from SetAttr_kept [OF a1 n1] have n2: "named tb sy c0 nm s2" "heap s2 = heap s" "brk s2 = brk s"
      by simp_all
    from SetAttr_kept [OF a2 n2(1)] n2 have n3: "named tb sy c0 nm s3" "heap s3 = heap s" "brk s3 = brk s"
      by simp_all
    from Push_only_stack [OF a3] n3 show ?thesis
      by (auto simp: e only_stack_def named_def)
  qed
qed

lemma keeps_InsertEntry:
  assumes "\<And>x. R x"
  shows "keeps (kept W b h0 tb sy c0 nm) (InsertEntry ident) R"
proof (rule keepsI)
  fix s x s'
  assume I: "framed W b h0 s \<and> named tb sy c0 nm s" and r: "InsertEntry ident s = Return x s'"
  from InsertEntry_kept [OF r, of tb sy c0 nm] I
  have "named tb sy c0 nm s'" "heap s' = heap s" "brk s' = brk s" by simp_all
  moreover from this I have "framed W b h0 s'" by (auto simp: framed_def)
  ultimately show "(framed W b h0 s' \<and> named tb sy c0 nm s') \<and> R x" using assms by simp
qed

text \<open>The handlers.\<close>

lemma only_stack_refl [simp]: "only_stack s s"
  by (simp add: only_stack_def)

lemma only_stack_trans: "only_stack s t \<Longrightarrow> only_stack t u \<Longrightarrow> only_stack s u"
  by (simp add: only_stack_def)

lemma main_scan_only_stack: "main_scan n i s = Return x s' \<Longrightarrow> only_stack s s'"
proof (induction n i s rule: main_scan.induct)
  case (1 n i s)
  show ?case
  proof (cases "i \<le> st_top s")
    case False
    with "1.prems" show ?thesis by (subst (asm) main_scan.simps) simp
  next
    case True
    note le = this
    from "1.prems" True obtain a where a: "IsAttr i NAME_ATTR s = Some a"
      by (subst (asm) main_scan.simps) (auto split: option.splits)
    show ?thesis
    proof (cases "a = 0")
      case True
      with "1.prems" le a have "main_scan n (i + 1) s = Return x s'"
        by (subst (asm) main_scan.simps) simp
      with "1.IH"(2) le a True show ?thesis by blast
    next
      case False
      with "1.prems" le a obtain v t where g: "GetAttr i NAME_ATTR s = Return v t"
        by (subst (asm) main_scan.simps) (auto split: result.splits)
      show ?thesis
      proof (cases "v = n")
        case True
        with "1.prems" le a False g have "s' = t"
          by (subst (asm) main_scan.simps) simp
        with GetAttr_only_stack [OF g] show ?thesis by simp
      next
        case neq: False
        with "1.prems" le a False g have "main_scan n (i + 1) t = Return x s'"
          by (subst (asm) main_scan.simps) simp
        with "1.IH"(1) le a False g neq have "only_stack t s'" by blast
        with GetAttr_only_stack [OF g] show ?thesis by (rule only_stack_trans)
      qed
    qed
  qed
qed

lemmas keeps_main_scan = keeps_only_stack [of "main_scan n i" for n i, OF main_scan_only_stack]

lemma keeps_unit_weaken:
  fixes f :: "state \<Rightarrow> unit result"
  shows "keeps I f (\<lambda>_. True) \<Longrightarrow> R () \<Longrightarrow> keeps I f R"
  by (auto simp: keeps_def split: result.splits)

lemma keeps_conseq: "keeps I f Q \<Longrightarrow> (\<And>x. Q x \<Longrightarrow> R x) \<Longrightarrow> keeps I f R"
  by (auto simp: keeps_def split: result.splits)

lemma keeps_if_state:
  "keeps I f R \<Longrightarrow> keeps I g R \<Longrightarrow> keeps I (\<lambda>s. if c s then f s else g s) R"
  by (auto simp: keeps_def split: result.splits)

lemma keeps_case_prod:
  "(\<And>a b. x = (a, b) \<Longrightarrow> keeps I (f a b) R) \<Longrightarrow> keeps I (case x of (a, b) \<Rightarrow> f a b) R"
  by (cases x) simp

lemmas keeps_intros =
  keeps_bnd keeps_ret keeps_if keeps_case_option keeps_case_prod keeps_no_return keeps_printf
  keeps_error_msg keeps_loc_str keeps_NodeKind keeps_IsNull keeps_NodeOp keeps_IntVal
  keeps_LeftChild keeps_RightChild keeps_MakeLeaf keeps_SetLeftChild keeps_SetRightChild
  keeps_free keeps_GetAttr keeps_LookUp keeps_OpenBlock keeps_CloseBlock keeps_SetAttr
  keeps_InsertEntry keeps_main_scan

lemma classdefop_keeps:
  assumes mk: "\<And>e. ok_ptr W b e \<Longrightarrow> keeps (kept W b h0 tb sy c0 nm) (mk e) (\<lambda>_. True)"
      and node: "ok_ptr W b node"
  shows "keeps (kept W b h0 tb sy c0 nm) (classdefop mk node) (\<lambda>_. True)"
  unfolding classdefop_def
  by (intro keeps_intros keeps_unit_weaken [OF mk] | simp add: node)+

lemma methodop_keeps:
  assumes mk: "\<And>e. ok_ptr W b e \<Longrightarrow> keeps (kept W b h0 tb sy c0 nm) (mk e) (\<lambda>_. True)"
      and node: "ok_ptr W b node"
  shows "keeps (kept W b h0 tb sy c0 nm) (methodop mk node) (\<lambda>_. True)"
  unfolding methodop_def
  by (intro keeps_intros keeps_unit_weaken [OF mk] | simp add: node)+

lemma typeidop_loop_keeps:
  "ok_ptr W b l \<Longrightarrow> ok_ptr W b r \<Longrightarrow> keeps (kept W b h0 tb sy c0 nm) (typeidop_loop f l r) (\<lambda>_. True)"
proof (induction f arbitrary: l r)
  case 0
  show ?case by (simp add: keeps_no_return)
next
  case (Suc f)
  show ?case
    unfolding typeidop_loop.simps
    by (intro keeps_intros Suc.IH | simp add: Suc.prems)+
qed

lemma typeidop_keeps:
  "ok_ptr W b node \<Longrightarrow> keeps (kept W b h0 tb sy c0 nm) (typeidop n node) (\<lambda>_. True)"
  unfolding typeidop_def
  by (intro keeps_intros typeidop_loop_keeps | simp)+

lemma specop_loop_keeps:
  "ok_ptr W b child \<Longrightarrow> keeps (kept W b h0 tb sy c0 nm) (specop_loop f child) (\<lambda>_. True)"
proof (induction f arbitrary: child)
  case 0
  show ?case by (simp add: keeps_no_return)
next
  case (Suc f)
  show ?case
    unfolding specop_loop.simps
    by (intro keeps_intros Suc.IH | simp add: Suc.prems)+
qed

lemma specop_keeps:
  "ok_ptr W b node \<Longrightarrow> keeps (kept W b h0 tb sy c0 nm) (specop n node) (\<lambda>_. True)"
  unfolding specop_def
  by (intro keeps_intros specop_loop_keeps | simp)+

lemma count_right_keeps:
  "keeps (kept W b h0 tb sy c0 nm) (count_right f temp k) (\<lambda>_. True)"
proof (induction f arbitrary: temp k)
  case 0
  show ?case by (simp add: keeps_no_return)
next
  case (Suc f)
  show ?case
    unfolding count_right.simps
    by (intro keeps_intros Suc.IH | simp)+
qed

lemma class_scan_keeps:
  "ok_ptr W b fi \<Longrightarrow> ok_ptr W b (v_rchild v) \<Longrightarrow>
   keeps (kept W b h0 tb sy c0 nm) (class_scan f fi nest0 i v) (\<lambda>v'. ok_ptr W b (v_rchild v'))"
proof (induction f arbitrary: i)
  case 0
  show ?case by (simp add: keeps_no_return)
next
  case (Suc f)
  show ?case
    unfolding class_scan.simps
    by (intro keeps_intros keeps_if_state Suc.IH | simp add: Suc.prems)+
qed

lemma class_index_loop_keeps:
  "ok_ptr W b r \<Longrightarrow> keeps (kept W b h0 tb sy c0 nm) (class_index_loop f r) (ok_opt W b)"
proof (induction f arbitrary: r)
  case 0
  show ?case by (simp add: keeps_no_return)
next
  case (Suc f)
  show ?case
    unfolding class_index_loop.simps
    by (intro keeps_intros Suc.IH | simp add: Suc.prems ok_opt_def)+
qed

lemma index_loop_keeps:
  assumes mk: "\<And>e. ok_ptr W b e \<Longrightarrow> keeps (kept W b h0 tb sy c0 nm) (mk e) (\<lambda>_. True)"
  shows "ok_ptr W b rc \<Longrightarrow> ok_ptr W b sel \<Longrightarrow> ok_ptr W b fi \<Longrightarrow>
   keeps (kept W b h0 tb sy c0 nm) (index_loop mk f si dim d rc sel fi) (ok_idx W b)"
proof (induction f arbitrary: d rc sel fi)
  case 0
  show ?case by (simp add: keeps_no_return)
next
  case (Suc f)
  show ?case
    unfolding index_loop.simps
    by (intro keeps_intros keeps_unit_weaken [OF mk] Suc.IH | simp add: Suc.prems ok_idx_def)+
qed

lemma length_access_keeps:
  "ok_ptr W b rc \<Longrightarrow> ok_ptr W b sel \<Longrightarrow>
   keeps (kept W b h0 tb sy c0 nm) (length_access si rc sel) (ok_opt W b)"
  unfolding length_access_def
  by (intro keeps_intros | simp add: ok_opt_def)+

lemma varop_VAR_keeps:
  "ok_ptr W b (v_rchild v) \<Longrightarrow> keeps (kept W b h0 tb sy c0 nm) (varop_VAR v) (ok_vars W b)"
  unfolding varop_VAR_def
  by (intro keeps_intros | simp add: ok_vars_def)+

lemma varop_routine_keeps:
  "ok_ptr W b lchild \<Longrightarrow> keeps (kept W b h0 tb sy c0 nm) (varop_routine lchild v) (ok_vars W b)"
  unfolding varop_routine_def
  by (intro keeps_intros | simp add: ok_vars_def)+

lemma varop_CLASS_keeps:
  "ok_ptr W b (v_rchild v) \<Longrightarrow> keeps (kept W b h0 tb sy c0 nm) (varop_CLASS n dcl v) (ok_vars W b)"
  unfolding varop_CLASS_def
  by (intro keeps_intros keeps_conseq [OF class_scan_keeps] keeps_conseq [OF class_index_loop_keeps]
      | simp add: ok_vars_def ok_opt_def)+

lemma varop_ARR_keeps:
  assumes mk: "\<And>e. ok_ptr W b e \<Longrightarrow> keeps (kept W b h0 tb sy c0 nm) (mk e) (\<lambda>_. True)"
  shows "ok_ptr W b (v_rchild v) \<Longrightarrow> keeps (kept W b h0 tb sy c0 nm) (varop_ARR mk n v) (ok_vars W b)"
  unfolding varop_ARR_def
  by (intro keeps_intros keeps_conseq [OF index_loop_keeps [of W b h0 tb sy c0 nm mk, OF mk]]
            keeps_conseq [OF length_access_keeps]
      | simp add: ok_vars_def ok_opt_def ok_idx_def)+

lemma varop_loop_keeps:
  assumes mk: "\<And>e. ok_ptr W b e \<Longrightarrow> keeps (kept W b h0 tb sy c0 nm) (mk e) (\<lambda>_. True)"
  shows "ok_ptr W b lchild \<Longrightarrow> ok_ptr W b (v_rchild v) \<Longrightarrow>
   keeps (kept W b h0 tb sy c0 nm) (varop_loop mk n f lchild dcl v) (\<lambda>_. True)"
proof (induction f arbitrary: v)
  case 0
  show ?case by (simp add: keeps_no_return)
next
  case (Suc f)
  show ?case
    unfolding varop_loop.simps
    by (intro keeps_intros keeps_conseq [OF varop_VAR_keeps] keeps_conseq [OF varop_routine_keeps]
              keeps_conseq [OF varop_CLASS_keeps] keeps_conseq [OF varop_ARR_keeps [of W b h0 tb sy c0 nm mk, OF mk]]
              Suc.IH
        | simp add: Suc.prems ok_vars_def
        | (use Suc.prems in \<open>auto simp: ok_vars_def\<close>))+
qed

lemma varop_keeps:
  assumes mk: "\<And>e. ok_ptr W b e \<Longrightarrow> keeps (kept W b h0 tb sy c0 nm) (mk e) (\<lambda>_. True)"
      and node: "ok_ptr W b node"
  shows "keeps (kept W b h0 tb sy c0 nm) (varop mk n node dcl) (\<lambda>_. True)"
  unfolding varop_def
  by (intro keeps_intros varop_loop_keeps [of W b h0 tb sy c0 nm mk, OF mk] | simp add: node)+

lemma declop_loop_keeps:
  assumes mk: "\<And>e. ok_ptr W b e \<Longrightarrow> keeps (kept W b h0 tb sy c0 nm) (mk e) (\<lambda>_. True)"
  shows "ok_ptr W b child \<Longrightarrow> keeps (kept W b h0 tb sy c0 nm) (declop_loop mk n f child) (\<lambda>_. True)"
proof (induction f arbitrary: child)
  case 0
  show ?case by (simp add: keeps_no_return)
next
  case (Suc f)
  show ?case
    unfolding declop_loop.simps
    by (intro keeps_intros keeps_unit_weaken [OF mk] keeps_unit_weaken [OF typeidop_keeps]
              keeps_conseq [OF count_right_keeps]
              keeps_unit_weaken [OF varop_keeps [of W b h0 tb sy c0 nm mk, OF mk]] Suc.IH
        | simp add: Suc.prems)+
qed

lemma routinecallop_keeps:
  assumes mk: "\<And>e. ok_ptr W b e \<Longrightarrow> keeps (kept W b h0 tb sy c0 nm) (mk e) (\<lambda>_. True)"
      and node: "ok_ptr W b node"
  shows "keeps (kept W b h0 tb sy c0 nm) (routinecallop mk n node) (\<lambda>_. True)"
  unfolding routinecallop_def
  by (intro keeps_intros keeps_unit_weaken [OF mk]
            keeps_unit_weaken [OF varop_keeps [of W b h0 tb sy c0 nm mk, OF mk]] | simp add: node)+

lemma MkST_keeps:
  "ok_ptr W b e \<Longrightarrow> keeps (kept W b h0 tb sy c0 nm) (MkST n e) (\<lambda>_. True)"
proof (induction n arbitrary: e)
  case 0
  show ?case by (simp add: keeps_no_return)
next
  case (Suc n)
  note mk = Suc.IH
  show ?case
    unfolding MkST.simps declop_def
    by (intro keeps_intros keeps_unit_weaken [OF mk] classdefop_keeps [of W b h0 tb sy c0 nm "MkST n", OF mk]
              methodop_keeps [of W b h0 tb sy c0 nm "MkST n", OF mk]
              declop_loop_keeps [of W b h0 tb sy c0 nm "MkST n", OF mk]
              specop_keeps typeidop_keeps
              varop_keeps [of W b h0 tb sy c0 nm "MkST n", OF mk]
              routinecallop_keeps [of W b h0 tb sy c0 nm "MkST n", OF mk]
        | simp add: Suc.prems)+
qed

section \<open>Uses of an int array\<close>

lemma GetAttr_named: "named tb sy c0 nm s \<Longrightarrow> GetAttr sy NAME_ATTR s = Return nm s"
  by (simp add: named_def GetAttr_def IsAttr_def IsAttr_loop_hit)

lemma LeftChild_lc: "heap s p = h p \<Longrightarrow> h p \<noteq> None \<Longrightarrow> LeftChild p s = Return (lc h p) s"
  by (auto simp: lc_def LeftChild_node)

lemma index_chain_head:
  "index_chain h p xs q \<Longrightarrow> \<forall>(S, I, e)\<in>set xs. S \<notin> W \<and> S < b \<and> I \<notin> W \<and> I < b \<and> ok_ptr W b e
   \<Longrightarrow> q \<notin> W \<Longrightarrow> q < b \<Longrightarrow> h q \<noteq> None \<Longrightarrow> p \<notin> W \<and> p < b \<and> h p \<noteq> None"
  by (cases xs) (auto split: option.splits)

lemma bound_use_other:
  assumes "heap s p = Some x" "heap s node = Some nd" "heap s (brk s) = None"
      and "NodeKind_f x \<noteq> NodeKind_f nd \<or> NodeOpType x \<noteq> NodeOpType nd"
  shows "heap (bound_use node i s) p = Some x"
proof -
  from assms have "p \<noteq> node" "p \<noteq> brk s" by auto
  with assms(1) show ?thesis by (simp add: bound_use_heap)
qed

text \<open>The attributes of the array symbol, in the state after the name is bound.\<close>

lemma array_use_facts:
  assumes arr: "int_array s sy nm dim"
      and nd: "heap s node = Some nd" "NodeKind_f nd = EXPRNode" "NodeOpType nd = VarOp"
      and free: "heap s (brk s) = None"
  obtains ty tyl where
    "GetAttr sy KIND_ATTR (bound_use node i s) = Return ARR (bound_use node i s)"
    "GetAttr sy DIMEN_ATTR (bound_use node i s) = Return dim (bound_use node i s)"
    "GetAttr sy NAME_ATTR (bound_use node i s) = Return nm (bound_use node i s)"
    "GetAttr sy TYPE_ATTR (bound_use node i s) = Return ty (bound_use node i s)"
    "LeftChild ty (bound_use node i s) = Return tyl (bound_use node i s)"
    "NodeKind tyl (bound_use node i s) = Return INTEGERTNode (bound_use node i s)"
proof -
  let ?s1 = "bound_use node i s"
  from arr have k: "GetAttr sy KIND_ATTR s = Return ARR s" and d: "GetAttr sy DIMEN_ATTR s = Return dim s"
    and n: "GetAttr sy NAME_ATTR s = Return nm s"
    by (simp_all add: int_array_def)
  from arr obtain ty tn bt where t: "GetAttr sy TYPE_ATTR s = Return ty s"
    and tn: "heap s ty = Some tn" "NodeKind_f tn = EXPRNode" "NodeOpType tn = TypeIdOp"
    and bt: "heap s (LeftC tn) = Some bt" "NodeKind_f bt = INTEGERTNode"
    by (auto simp: int_array_def split: result.splits option.splits)
  have tn1: "heap ?s1 ty = Some tn" using tn nd free by (intro bound_use_other) auto
  have bt1: "heap ?s1 (LeftC tn) = Some bt" using bt nd free by (intro bound_use_other) auto
  show thesis
  proof (rule that [of ty "LeftC tn"])
    show "GetAttr sy KIND_ATTR ?s1 = Return ARR ?s1" by (rule GetAttr_transfer [OF k]) simp_all
    show "GetAttr sy DIMEN_ATTR ?s1 = Return dim ?s1" by (rule GetAttr_transfer [OF d]) simp_all
    show "GetAttr sy NAME_ATTR ?s1 = Return nm ?s1" by (rule GetAttr_transfer [OF n]) simp_all
    show "GetAttr sy TYPE_ATTR ?s1 = Return ty ?s1" by (rule GetAttr_transfer [OF t]) simp_all
    show "LeftChild ty ?s1 = Return (LeftC tn) ?s1" using tn1 tn by (simp add: LeftChild_node)
    show "NodeKind (LeftC tn) ?s1 = Return INTEGERTNode ?s1" using bt1 bt by (simp add: NodeKind_node)
  qed
qed

lemma bnd_assoc_fun: "bnd (bnd f g) h = bnd f (\<lambda>x. bnd (g x) h)"
  by (rule ext) (simp add: bnd_def split: result.splits)

lemma bnd_keeps_cong:
  assumes "keeps I f R" "I s" "\<And>x t. I t \<Longrightarrow> R x \<Longrightarrow> g x t = g' x t"
  shows "bnd f g s = bnd f g' s"
proof (cases "f s")
  case (Return x t)
  from keepsD [OF assms(1,2) Return] assms(3) Return show ?thesis by (simp add: bnd_def)
qed (simp_all add: bnd_def)

lemma analyse_each_keeps:
  assumes mk: "\<And>e. ok_ptr W b e \<Longrightarrow> keeps (kept W b h0 tb sy c0 nm) (mk e) (\<lambda>_. True)"
  shows "\<forall>e\<in>set es. ok_ptr W b e \<Longrightarrow> keeps (kept W b h0 tb sy c0 nm) (analyse_each mk es) (\<lambda>_. True)"
proof (induction es)
  case Nil
  show ?case by (simp add: keeps_def ret_def)
next
  case (Cons e es)
  then have e: "ok_ptr W b e" and ih: "keeps (kept W b h0 tb sy c0 nm) (analyse_each mk es) (\<lambda>_. True)"
    by simp_all
  show ?case
    unfolding analyse_each.simps
    by (intro keeps_intros keeps_unit_weaken [OF mk] ih | simp add: e)+
qed

lemma NodeKind_cases:
  obtains k where "NodeKind e s = Return k s" | "NodeKind e s = Undefined"
  by (cases "heap s e") (auto simp: NodeKind_def deref_def bnd_def)

lemma index_loop_chain:
  assumes mk: "\<And>e. ok_ptr W b e \<Longrightarrow> keeps (kept W b h0 tb sy c0 nm) (mk e) (\<lambda>_. True)"
      and q: "q \<notin> W" "q < b" "h0 q \<noteq> None"
  shows "index_chain h0 p xs q
     \<Longrightarrow> \<forall>(S, I, e)\<in>set xs. S \<notin> W \<and> S < b \<and> I \<notin> W \<and> I < b \<and> ok_ptr W b e
     \<Longrightarrow> framed W b h0 s \<Longrightarrow> named tb sy c0 nm s
     \<Longrightarrow> d + int (length xs) \<le> dim
     \<Longrightarrow> index_loop mk (length xs + f) si dim d p p (lc h0 p) s
           = bnd (analyse_each mk (map (\<lambda>(S, I, e). e) xs))
               (\<lambda>_. index_loop mk f si dim (d + int (length xs)) q q (lc h0 q)) s"
proof (induction xs arbitrary: p d s)
  case Nil
  then show ?case by (simp add: ret_def bnd_def)
next
  case (Cons x xs)
  obtain S I e where x: "x = (S, I, e)" by (cases x) auto
  from Cons.prems(1) x obtain nd ind where
    p: "p = S" and nd: "h0 S = Some nd" "NodeKind_f nd = EXPRNode" "LeftC nd = I"
    and rest: "index_chain h0 (RightC nd) xs q"
    and ind: "h0 I = Some ind" "NodeKind_f ind = EXPRNode" "NodeOpType ind = IndexOp" "LeftC ind = e"
    by (auto split: option.splits)
  from Cons.prems(2) x have pr: "S \<notin> W" "S < b" "I \<notin> W" "I < b" "ok_ptr W b e"
    and prs: "\<forall>(S, I, e)\<in>set xs. S \<notin> W \<and> S < b \<and> I \<notin> W \<and> I < b \<and> ok_ptr W b e"
    by auto
  let ?p2 = "RightC nd"
  let ?es = "map (\<lambda>(S, I, e). e) xs"
  from index_chain_head [OF rest prs q] have p2: "?p2 \<notin> W" "?p2 < b" "h0 ?p2 \<noteq> None" by auto
  note fr = Cons.prems(3) and na = Cons.prems(4)
  have hS: "heap s S = Some nd" using framed_same [OF fr pr(1,2)] nd by simp
  have hI: "heap s I = Some ind" using framed_same [OF fr pr(3,4)] ind by simp
  have lcS: "lc h0 S = I" using nd by (simp add: lc_def)
  have a1: "IsNull S s = Return False s" using hS nd by (simp add: IsNull_node)
  have a2: "NodeOp I s = Return IndexOp s" using hI ind by (simp add: NodeOp_node)
  have a3: "LeftChild I s = Return e s" using hI ind by (simp add: LeftChild_node)
  have dim: "\<not> dim < d + 1" "d + 1 + int (length xs) \<le> dim" using Cons.prems(5) by simp_all
  have ar: "d + 1 + int (length xs) = d + int (length (x # xs))" by simp
  let ?tail = "\<lambda>_::unit. index_loop mk f si dim (d + int (length (x # xs))) q q (lc h0 q)"
  consider (kind) k where "NodeKind e s = Return k s" | (undef) "NodeKind e s = Undefined"
    by (rule NodeKind_cases)
  then show ?case
  proof cases
    case undef
    with a1 a2 a3 dim(1) show ?thesis by (simp add: p lcS x bnd_def)
  next
    case (kind k)
    let ?m = "if k = EXPRNode then mk e else ret ()"
    have km: "keeps (kept W b h0 tb sy c0 nm) ?m (\<lambda>_. True)"
      using mk [OF pr(5)] by (simp add: keeps_ret)
    have a4: "bnd (if k = EXPRNode then bnd (LeftChild I) (\<lambda>e'. mk e') else ret ()) g s = bnd ?m g s" for g
      using a3 by (cases "k = EXPRNode") (simp_all add: bnd_def)
    have lhs: "index_loop mk (length (x # xs) + f) si dim d p p (lc h0 p) s
             = bnd ?m (\<lambda>_. bnd (RightChild S) (\<lambda>r'. bnd (LeftChild r') (\<lambda>fi'.
                 index_loop mk (length xs + f) si dim (d + 1) r' r' fi'))) s"
      using a1 a2 a3 kind dim(1) by (simp add: p lcS a4)
    have mp: "map (\<lambda>(S, I, e). e) (x # xs) = e # ?es" by (simp add: x)
    have gen: "bnd (analyse_each mk (e # ?es)) T s = bnd ?m (\<lambda>_. bnd (analyse_each mk ?es) T) s"
      for T :: "unit \<Rightarrow> state \<Rightarrow> (int \<times> int \<times> int \<times> int) option result"
      unfolding analyse_each.simps bnd_assoc_fun using kind by simp
    have rhs: "bnd (analyse_each mk (map (\<lambda>(S, I, e). e) (x # xs))) ?tail s
             = bnd ?m (\<lambda>_. bnd (analyse_each mk ?es) ?tail) s"
      unfolding mp by (rule gen)
    have "bnd ?m (\<lambda>_. bnd (RightChild S) (\<lambda>r'. bnd (LeftChild r') (\<lambda>fi'.
                 index_loop mk (length xs + f) si dim (d + 1) r' r' fi'))) s
        = bnd ?m (\<lambda>_. bnd (analyse_each mk ?es) ?tail) s"
    proof (rule bnd_keeps_cong [OF km])
      show "framed W b h0 s \<and> named tb sy c0 nm s" using fr na by simp
    next
      fix u :: unit and t
      assume t: "framed W b h0 t \<and> named tb sy c0 nm t"
      then have fr1: "framed W b h0 t" and na1: "named tb sy c0 nm t" by simp_all
      have hS1: "heap t S = Some nd" using framed_same [OF fr1 pr(1,2)] nd by simp
      have hp2: "heap t ?p2 = h0 ?p2" using framed_same [OF fr1 p2(1,2)] .
      have a5: "RightChild S t = Return ?p2 t" using hS1 nd by (simp add: RightChild_node)
      have a6: "LeftChild ?p2 t = Return (lc h0 ?p2) t"
        by (rule LeftChild_lc [of t "?p2" h0, OF hp2 p2(3)])
      note ih = Cons.IH [OF rest prs fr1 na1 dim(2)]
      show "bnd (RightChild S) (\<lambda>r'. bnd (LeftChild r') (\<lambda>fi'.
                 index_loop mk (length xs + f) si dim (d + 1) r' r' fi')) t
            = bnd (analyse_each mk ?es) ?tail t"
        using a5 a6 by (simp add: ih [unfolded ar])
    qed
    with lhs rhs show ?thesis by simp
  qed
qed

lemmas index_loop_step = index_loop.simps(2) [THEN fun_cong]

lemmas varop_loop_step = varop_loop.simps(2) [THEN fun_cong]

lemmas varop_ARR_step = varop_ARR_def [THEN fun_cong]

lemmas length_access_step = length_access_def [THEN fun_cong]

lemma index_chain_expr:
  assumes "index_chain h p xs q"
      and "xs = [] \<Longrightarrow> \<exists>nd. h q = Some nd \<and> NodeKind_f nd = EXPRNode"
  shows "\<exists>nd. h p = Some nd \<and> NodeKind_f nd = EXPRNode"
  using assms by (cases xs) (auto split: option.splits)

lemma array_loop_stops:
  assumes g: "GetAttr sy KIND_ATTR s1 = Return ARR s1" "GetAttr sy TYPE_ATTR s1 = Return ty s1"
             "LeftChild ty s1 = Return tyl s1" "NodeKind tyl s1 = Return INTEGERTNode s1"
             "GetAttr sy DIMEN_ATTR s1 = Return dim s1"
      and ch: "IsNull ch s1 = Return False s1" "LeftChild ch s1 = Return fi s1"
  shows "index_loop mk n sy dim 0 ch ch fi s1 = Exit c t \<Longrightarrow>
           varop_loop mk n (Suc f0) l dcl \<lparr>v_st_ind0 = sy, v_rchild = ch, v_found = None\<rparr> s1 = Exit c t"
    and "index_loop mk n sy dim 0 ch ch fi s1 = Undefined \<Longrightarrow>
           varop_loop mk n (Suc f0) l dcl \<lparr>v_st_ind0 = sy, v_rchild = ch, v_found = None\<rparr> s1 = Undefined"
    and "index_loop mk n sy dim 0 ch ch fi s1 = OutOfFuel \<Longrightarrow>
           varop_loop mk n (Suc f0) l dcl \<lparr>v_st_ind0 = sy, v_rchild = ch, v_found = None\<rparr> s1 = OutOfFuel"
  using g ch
  by (simp_all del: index_loop.simps add: varop_loop_step varop_ARR_step bnd_def)

lemma array_too_many_indices:
  assumes mk: "\<And>e. ok_ptr W b e \<Longrightarrow> keeps (kept W b h0 tb sy c0 nm) (mk e) (\<lambda>_. True)"
      and fr: "framed W b h0 s1" and na: "named tb sy c0 nm s1"
      and g: "GetAttr sy KIND_ATTR s1 = Return ARR s1" "GetAttr sy TYPE_ATTR s1 = Return ty s1"
             "LeftChild ty s1 = Return tyl s1" "NodeKind tyl s1 = Return INTEGERTNode s1"
             "GetAttr sy DIMEN_ATTR s1 = Return dim s1"
      and chain: "index_chain h0 ch xs q"
      and prs: "\<forall>(S, I, e)\<in>set xs. S \<notin> W \<and> S < b \<and> I \<notin> W \<and> I < b \<and> ok_ptr W b e"
      and q: "q \<notin> W" "q < b" "h0 q = Some qn" "NodeKind_f qn = EXPRNode"
      and qi: "LeftC qn \<notin> W" "LeftC qn < b" "h0 (LeftC qn) = Some qi" "NodeKind_f qi = EXPRNode"
              "NodeOpType qi \<noteq> FieldOp"
      and len: "int (length xs) = dim" and fuel: "length xs < n"
  shows "varop_loop mk n (Suc f0) l dcl \<lparr>v_st_ind0 = sy, v_rchild = ch, v_found = None\<rparr> s1
         = bnd (analyse_each mk (map (\<lambda>(S, I, e). e) xs))
             (\<lambda>_. error_msg INDX_MIS CONTINUE nm 0) s1"
proof -
  let ?es = "map (\<lambda>(S, I, e). e) xs"
  let ?v = "\<lparr>v_st_ind0 = sy, v_rchild = ch, v_found = None\<rparr>"
  from fuel obtain f where n: "n = length xs + Suc f" by (metis less_iff_Suc_add add_Suc_right)
  have q0: "h0 q \<noteq> None" using q by simp
  from index_chain_head [OF chain prs q(1,2) q0]
  have c: "ch \<notin> W" "ch < b" "h0 ch \<noteq> None" by simp_all
  from index_chain_expr [OF chain] q obtain cn where cn: "h0 ch = Some cn" "NodeKind_f cn = EXPRNode"
    by auto
  have hc: "heap s1 ch = Some cn" using framed_same [OF fr c(1,2)] cn by simp
  have ch: "IsNull ch s1 = Return False s1" "LeftChild ch s1 = Return (lc h0 ch) s1"
    using hc cn by (simp_all add: IsNull_node LeftChild_node lc_def)
  have eq: "index_loop mk n sy dim 0 ch ch (lc h0 ch) s1
            = bnd (analyse_each mk ?es)
                (\<lambda>_. index_loop mk (Suc f) sy dim (0 + int (length xs)) q q (lc h0 q)) s1"
    unfolding n using len
    by (intro index_loop_chain [OF mk q(1,2) q0 chain prs fr na]) simp_all
  have ks: "keeps (kept W b h0 tb sy c0 nm) (analyse_each mk ?es) (\<lambda>_. True)"
    using prs by (intro analyse_each_keeps [OF mk]) auto
  show ?thesis
  proof (cases "analyse_each mk ?es s1")
    case (Return u t)
    from keepsD [OF ks _ Return] fr na have frt: "framed W b h0 t" and nat: "named tb sy c0 nm t"
      by simp_all
    have hq: "heap t q = Some qn" using framed_same [OF frt q(1,2)] q by simp
    have hi: "heap t (LeftC qn) = Some qi" using framed_same [OF frt qi(1,2)] qi by simp
    have t: "IsNull q t = Return False t" "NodeOp (lc h0 q) t = Return (NodeOpType qi) t"
            "GetAttr sy NAME_ATTR t = Return nm t"
      using hq hi q qi GetAttr_named [OF nat]
      by (simp_all add: IsNull_node NodeOp_node lc_def)
    have "index_loop mk n sy dim 0 ch ch (lc h0 ch) s1
          = Return None (t\<lparr>out := out t @ [Semantic_Error INDX_MIS nm 0]\<rparr>)"
      unfolding eq using Return t qi(5) len
      by (simp del: index_loop.simps add: index_loop_step bnd_def error_msg_def ret_def)
    with g ch Return show ?thesis
      by (simp del: index_loop.simps add: varop_loop_step varop_ARR_step bnd_def error_msg_def ret_def)
  next
    case (Exit c t)
    with eq have "index_loop mk n sy dim 0 ch ch (lc h0 ch) s1 = Exit c t" by (simp add: bnd_def)
    from array_loop_stops(1) [OF g ch this] Exit show ?thesis by (simp add: bnd_def)
  next
    case Undefined
    with eq have "index_loop mk n sy dim 0 ch ch (lc h0 ch) s1 = Undefined" by (simp add: bnd_def)
    from array_loop_stops(2) [OF g ch this] Undefined show ?thesis by (simp add: bnd_def)
  next
    case OutOfFuel
    with eq have "index_loop mk n sy dim 0 ch ch (lc h0 ch) s1 = OutOfFuel" by (simp add: bnd_def)
    from array_loop_stops(3) [OF g ch this] OutOfFuel show ?thesis by (simp add: bnd_def)
  qed
qed

lemma array_too_few_indices:
  assumes mk: "\<And>e. ok_ptr W b e \<Longrightarrow> keeps (kept W b h0 tb sy c0 nm) (mk e) (\<lambda>_. True)"
      and fr: "framed W b h0 s1" and na: "named tb sy c0 nm s1"
      and g: "GetAttr sy KIND_ATTR s1 = Return ARR s1" "GetAttr sy TYPE_ATTR s1 = Return ty s1"
             "LeftChild ty s1 = Return tyl s1" "NodeKind tyl s1 = Return INTEGERTNode s1"
             "GetAttr sy DIMEN_ATTR s1 = Return dim s1"
      and chain: "index_chain h0 ch xs NullExp"
      and prs: "\<forall>(S, I, e)\<in>set xs. S \<notin> W \<and> S < b \<and> I \<notin> W \<and> I < b \<and> ok_ptr W b e"
      and q: "h0 NullExp = Some dn" "NodeKind_f dn = DUMMYNode"
      and len: "xs \<noteq> []" "int (length xs) < dim" and fuel: "length xs < n"
  shows "varop_loop mk n (Suc f0) l dcl \<lparr>v_st_ind0 = sy, v_rchild = ch, v_found = None\<rparr> s1
         = bnd (analyse_each mk (map (\<lambda>(S, I, e). e) xs))
             (\<lambda>_. error_msg INDX_MIS CONTINUE nm 0) s1"
proof -
  let ?es = "map (\<lambda>(S, I, e). e) xs"
  let ?v = "\<lparr>v_st_ind0 = sy, v_rchild = ch, v_found = None\<rparr>"
  from fuel obtain f where n: "n = length xs + Suc f" by (metis less_iff_Suc_add add_Suc_right)
  from fr have qw: "NullExp \<notin> W" "NullExp < b" by (simp_all add: framed_def)
  have q0: "h0 NullExp \<noteq> None" using q by simp
  from index_chain_head [OF chain prs qw q0]
  have c: "ch \<notin> W" "ch < b" "h0 ch \<noteq> None" by simp_all
  from index_chain_expr [OF chain] len(1) obtain cn where cn: "h0 ch = Some cn" "NodeKind_f cn = EXPRNode"
    by auto
  have hc: "heap s1 ch = Some cn" using framed_same [OF fr c(1,2)] cn by simp
  have ch: "IsNull ch s1 = Return False s1" "LeftChild ch s1 = Return (lc h0 ch) s1"
    using hc cn by (simp_all add: IsNull_node LeftChild_node lc_def)
  have eq: "index_loop mk n sy dim 0 ch ch (lc h0 ch) s1
            = bnd (analyse_each mk ?es)
                (\<lambda>_. index_loop mk (Suc f) sy dim (0 + int (length xs)) NullExp NullExp (lc h0 NullExp)) s1"
    unfolding n using len
    by (intro index_loop_chain [OF mk qw q0 chain prs fr na]) simp_all
  have ks: "keeps (kept W b h0 tb sy c0 nm) (analyse_each mk ?es) (\<lambda>_. True)"
    using prs by (intro analyse_each_keeps [OF mk]) auto
  show ?thesis
  proof (cases "analyse_each mk ?es s1")
    case (Return u t)
    from keepsD [OF ks _ Return] fr na have frt: "framed W b h0 t" and nat: "named tb sy c0 nm t"
      by simp_all
    have hq: "heap t NullExp = Some dn" using framed_same [OF frt qw] q by simp
    have t: "IsNull NullExp t = Return True t" "GetAttr sy NAME_ATTR t = Return nm t"
      using hq q GetAttr_named [OF nat] by (simp_all add: IsNull_node)
    have "index_loop mk n sy dim 0 ch ch (lc h0 ch) s1
          = Return (Some (int (length xs), NullExp, NullExp, lc h0 NullExp)) t"
      unfolding eq using Return t
      by (simp del: index_loop.simps add: index_loop_step bnd_def ret_def)
    with g ch Return t len(2) show ?thesis
      by (simp del: index_loop.simps add: varop_loop_step varop_ARR_step bnd_def error_msg_def ret_def)
  next
    case (Exit c t)
    with eq have "index_loop mk n sy dim 0 ch ch (lc h0 ch) s1 = Exit c t" by (simp add: bnd_def)
    from array_loop_stops(1) [OF g ch this] Exit show ?thesis by (simp add: bnd_def)
  next
    case Undefined
    with eq have "index_loop mk n sy dim 0 ch ch (lc h0 ch) s1 = Undefined" by (simp add: bnd_def)
    from array_loop_stops(2) [OF g ch this] Undefined show ?thesis by (simp add: bnd_def)
  next
    case OutOfFuel
    with eq have "index_loop mk n sy dim 0 ch ch (lc h0 ch) s1 = OutOfFuel" by (simp add: bnd_def)
    from array_loop_stops(3) [OF g ch this] OutOfFuel show ?thesis by (simp add: bnd_def)
  qed
qed

lemma array_length_access:
  assumes mk: "\<And>e. ok_ptr W b e \<Longrightarrow> keeps (kept W b h0 tb sy c0 nm) (mk e) (\<lambda>_. True)"
      and fr: "framed W b h0 s1" and na: "named tb sy c0 nm s1"
      and g: "GetAttr sy KIND_ATTR s1 = Return ARR s1" "GetAttr sy TYPE_ATTR s1 = Return ty s1"
             "LeftChild ty s1 = Return tyl s1" "NodeKind tyl s1 = Return INTEGERTNode s1"
             "GetAttr sy DIMEN_ATTR s1 = Return dim s1"
      and chain: "index_chain h0 ch xs q"
      and prs: "\<forall>(S, I, e)\<in>set xs. S \<notin> W \<and> S < b \<and> I \<notin> W \<and> I < b \<and> ok_ptr W b e"
      and fa: "field_access h0 q F lf (loc_str_from 0 tb ''length'') nxt"
      and fw: "q \<notin> W" "q < b" "F \<notin> W" "F < b" "lf \<notin> W" "lf < b" "nxt \<notin> W" "nxt < b"
      and nx: "h0 nxt = Some xn"
      and dn: "h0 NullExp = Some dn" "NodeKind_f dn = DUMMYNode"
      and len: "int (length xs) \<le> dim" and fuel: "length xs < n"
  shows "varop_loop mk n (Suc f0) l dcl \<lparr>v_st_ind0 = sy, v_rchild = ch, v_found = None\<rparr> s1
         = bnd (analyse_each mk (map (\<lambda>(S, I, e). e) xs))
             (\<lambda>_. if NodeKind_f xn = DUMMYNode then ret ()
                   else error_msg TYPE_MIS CONTINUE nm 0) s1"
proof -
  let ?es = "map (\<lambda>(S, I, e). e) xs"
  let ?v = "\<lparr>v_st_ind0 = sy, v_rchild = ch, v_found = None\<rparr>"
  from fuel obtain f where n: "n = length xs + Suc f" by (metis less_iff_Suc_add add_Suc_right)
  from fa obtain qn fn ln where
    qn: "h0 q = Some qn" "NodeKind_f qn = EXPRNode" "LeftC qn = F" "RightC qn = nxt"
    and fn: "h0 F = Some fn" "NodeKind_f fn = EXPRNode" "NodeOpType fn = FieldOp" "LeftC fn = lf"
    and ln: "h0 lf = Some ln" "NodeKind_f ln \<noteq> EXPRNode" "IntVal_f ln = loc_str_from 0 tb ''length''"
    by (auto simp: field_access_def split: option.splits)
  have q0: "h0 q \<noteq> None" using qn by simp
  from index_chain_head [OF chain prs fw(1,2) q0]
  have c: "ch \<notin> W" "ch < b" "h0 ch \<noteq> None" by simp_all
  from index_chain_expr [OF chain] qn obtain cn where cn: "h0 ch = Some cn" "NodeKind_f cn = EXPRNode"
    by auto
  have hc: "heap s1 ch = Some cn" using framed_same [OF fr c(1,2)] cn by simp
  have ch: "IsNull ch s1 = Return False s1" "LeftChild ch s1 = Return (lc h0 ch) s1"
    using hc cn by (simp_all add: IsNull_node LeftChild_node lc_def)
  have eq: "index_loop mk n sy dim 0 ch ch (lc h0 ch) s1
            = bnd (analyse_each mk ?es)
                (\<lambda>_. index_loop mk (Suc f) sy dim (0 + int (length xs)) q q (lc h0 q)) s1"
    unfolding n using len
    by (intro index_loop_chain [OF mk fw(1,2) q0 chain prs fr na]) simp_all
  have ks: "keeps (kept W b h0 tb sy c0 nm) (analyse_each mk ?es) (\<lambda>_. True)"
    using prs by (intro analyse_each_keeps [OF mk]) auto
  show ?thesis
  proof (cases "analyse_each mk ?es s1")
    case (Return u t)
    from keepsD [OF ks _ Return] fr na have frt: "framed W b h0 t" and nat: "named tb sy c0 nm t"
      by simp_all
    from frt have qw: "NullExp \<notin> W" "NullExp < b" by (simp_all add: framed_def)
    have h: "heap t q = Some qn" "heap t F = Some fn" "heap t lf = Some ln" "heap t nxt = Some xn"
            "heap t NullExp = Some dn"
      using framed_same [OF frt fw(1,2)] framed_same [OF frt fw(3,4)] framed_same [OF frt fw(5,6)]
            framed_same [OF frt fw(7,8)] framed_same [OF frt qw] qn fn ln nx dn
      by simp_all
    have tb: "strg_tbl t = tb" using nat by (simp add: named_def)
    have lq: "lc h0 q = F" using qn by (simp add: lc_def)
    have t: "IsNull q t = Return False t" "NodeOp F t = Return FieldOp t"
            "LeftChild F t = Return lf t" "IntVal lf t = Return (loc_str_from 0 tb ''length'') t"
            "RightChild q t = Return nxt t" "IsNull nxt t = Return (NodeKind_f xn = DUMMYNode) t"
            "GetAttr sy NAME_ATTR t = Return nm t"
      using h qn fn ln GetAttr_named [OF nat]
      by (simp_all add: IsNull_node NodeOp_node LeftChild_node RightChild_node IntVal_leaf)
    have "index_loop mk n sy dim 0 ch ch (lc h0 ch) s1
          = Return (Some (int (length xs), q, q, F)) t"
      unfolding eq lq using Return t
      by (simp del: index_loop.simps add: index_loop_step bnd_def ret_def)
    with g ch Return t tb show ?thesis
      by (simp del: index_loop.simps
            add: varop_loop_step varop_ARR_step length_access_step loc_str_def bnd_def
                 error_msg_def ret_def)
  next
    case (Exit c t)
    with eq have "index_loop mk n sy dim 0 ch ch (lc h0 ch) s1 = Exit c t" by (simp add: bnd_def)
    from array_loop_stops(1) [OF g ch this] Exit show ?thesis by (simp add: bnd_def)
  next
    case Undefined
    with eq have "index_loop mk n sy dim 0 ch ch (lc h0 ch) s1 = Undefined" by (simp add: bnd_def)
    from array_loop_stops(2) [OF g ch this] Undefined show ?thesis by (simp add: bnd_def)
  next
    case OutOfFuel
    with eq have "index_loop mk n sy dim 0 ch ch (lc h0 ch) s1 = OutOfFuel" by (simp add: bnd_def)
    from array_loop_stops(3) [OF g ch this] OutOfFuel show ?thesis by (simp add: bnd_def)
  qed
qed

lemma index_chain_transfer:
  "index_chain h p xs q \<Longrightarrow>
   (\<And>S nd. h S = Some nd \<Longrightarrow> NodeKind_f nd = EXPRNode \<Longrightarrow>
      NodeOpType nd = SelectOp \<or> NodeOpType nd = IndexOp \<Longrightarrow> h' S = Some nd) \<Longrightarrow>
   index_chain h' p xs q"
proof (induction xs arbitrary: p)
  case Nil
  then show ?case by simp
next
  case (Cons x xs)
  obtain S I e where x: "x = (S, I, e)" by (cases x) auto
  from Cons.prems(1) x obtain nd ind where
    p: "p = S" and nd: "h S = Some nd" "NodeKind_f nd = EXPRNode" "NodeOpType nd = SelectOp" "LeftC nd = I"
    and rest: "index_chain h (RightC nd) xs q"
    and ind: "h I = Some ind" "NodeKind_f ind = EXPRNode" "NodeOpType ind = IndexOp" "LeftC ind = e"
    by (auto split: option.splits)
  have a: "h' S = Some nd" using nd by (intro Cons.prems(2)) simp_all
  have b: "h' I = Some ind" using ind by (intro Cons.prems(2)) simp_all
  have c: "index_chain h' (RightC nd) xs q" by (rule Cons.IH [OF rest Cons.prems(2)])
  from a b c nd ind p show ?case by (simp add: x)
qed

lemma index_chain_nodes:
  "index_chain h p xs q \<Longrightarrow> \<forall>(S, I, e)\<in>set xs. h S \<noteq> None \<and> h I \<noteq> None"
proof (induction xs arbitrary: p)
  case Nil
  then show ?case by simp
next
  case (Cons x xs)
  obtain S I e where x: "x = (S, I, e)" by (cases x) auto
  from Cons.prems x obtain nd where "h S = Some nd" "index_chain h (RightC nd) xs q" "h I \<noteq> None"
    by (auto split: option.splits)
  with Cons.IH [of "RightC nd"] x show ?case by auto
qed

lemma bound_use_framed:
  assumes nd: "heap s node = Some nd" "NodeKind_f nd = EXPRNode"
      and below: "\<forall>p. brk s \<le> p \<longrightarrow> heap s p = None"
      and dummy: "heap s NullExp = Some dummy_node"
      and closed: "closed_under_children W s" and nW: "node \<notin> W"
  shows "framed W (brk s + 1) (heap (bound_use node i s)) (bound_use node i s)"
proof -
  let ?t = "bound_use node i s"
  have nb: "node < brk s" using nd below by (metis not_le option.distinct(1))
  have ne: "NullExp < brk s" using dummy below by (metis not_le option.distinct(1))
  have nn: "NullExp \<noteq> node" using nd dummy by (auto simp: dummy_node_def)
  have c3: "ok_ptr W (brk s + 1) (LeftC x) \<and> ok_ptr W (brk s + 1) (RightC x)"
    if p: "p \<in> W \<or> brk s + 1 \<le> p" and h: "heap ?t p = Some x" and k: "NodeKind_f x = EXPRNode"
    for p x
  proof (cases "p \<in> W")
    case True
    with closed have pb: "p < brk s" by (auto simp: closed_under_children_def)
    from True nW have "p \<noteq> node" by auto
    with pb h have "heap s p = Some x" by (simp add: bound_use_heap)
    with closed True k show ?thesis by (auto simp: closed_under_children_def ok_ptr_def)
  next
    case False
    with p have pb: "brk s + 1 \<le> p" by simp
    with nb have "p \<noteq> node" "p \<noteq> brk s" by auto
    with h have "heap s p = Some x" by (simp add: bound_use_heap)
    with below pb show ?thesis by auto
  qed
  have c5: "heap ?t NullExp = Some dummy_node"
    using dummy nn ne by (simp add: bound_use_heap)
  have c4: "NullExp \<notin> W" using closed by (auto simp: closed_under_children_def)
  show ?thesis
    unfolding framed_def
  proof (intro conjI allI impI)
    show "NullExp \<notin> W" by (rule c4)
    show "NullExp < brk s + 1" using ne by simp
    show "brk s + 1 \<le> brk ?t" by simp
    show "case heap ?t NullExp of None \<Rightarrow> False | Some dn \<Rightarrow> NodeKind_f dn \<noteq> EXPRNode"
      by (simp add: c5 dummy_node_def)
  next
    fix p x
    assume "(p \<in> W \<or> brk s + 1 \<le> p) \<and> heap ?t p = Some x \<and> NodeKind_f x = EXPRNode"
    then show "ok_ptr W (brk s + 1) (LeftC x)" "ok_ptr W (brk s + 1) (RightC x)"
      using c3 [of p x] by simp_all
  qed simp
qed

lemma bound_use_named:
  assumes arr: "int_array s sy nm dim"
  shows "named (strg_tbl s) sy (st s sy) nm (bound_use node i s)"
proof -
  from arr have a: "0 < sy" "sy \<le> st_top s" "st_top s < ST_SIZE" "st s sy \<noteq> 0"
    "st s sy \<le> attr_top s" "IsAttr sy NAME_ATTR s = Some (st s sy)"
    "GetAttr sy NAME_ATTR s = Return nm s"
    by (simp_all add: int_array_def)
  from a(1-3,6) have l: "IsAttr_loop (attrarray s) NAME_ATTR (st s sy) = Some (st s sy)"
    by (simp add: IsAttr_def)
  from IsAttr_loop_Some [OF l a(4)]
  have c: "attr_num (attrarray s (st s sy)) = NAME_ATTR" "0 < st s sy" "st s sy < ATTR_SIZE"
    by simp_all
  from a(6,7,4) have v: "attr_val (attrarray s (st s sy)) = nm"
    by (simp add: GetAttr_def pure_of_def bnd_def)
  from a c v show ?thesis by (simp add: named_def)
qed

text \<open>
  C7. Let \<open>node\<close> be a use of a name (\<open>use_of\<close>) that \<open>LookUp\<close> binds, on a scope stack
  within its bounds, to the symbol \<open>sy\<close>, an int array of dimension \<open>dim\<close> (2 in the
  claim) with the name \<open>nm\<close>. Let the heap be as the allocator leaves it (the dummy node
  at \<open>NullExp\<close>, the cells from \<open>brk\<close> on free), and let the tree be a tree: the index
  expressions of the chain lie in a set \<open>W\<close> of nodes that is closed under children and
  holds neither \<open>node\<close> nor a node of the access chain. With more fuel than the chain
  has index steps, the run of \<open>MkST\<close> on the use binds the name (\<open>bound_use\<close>), analyses
  the index expressions of the index steps \<open>xs\<close> it passes, in their order
  (\<open>analyse_each\<close>), and then, if that analysis returns:
  \<^item> with \<open>dim\<close> index steps followed by one more \<open>IndexOp\<close> (three for \<open>dim = 2\<close>), it
    prints the line of \<open>INDX_MIS\<close> for \<open>nm\<close> and returns;
  \<^item> with at least one but fewer than \<open>dim\<close> index steps and nothing after them, it
    prints the line of \<open>INDX_MIS\<close> for \<open>nm\<close> and returns;
  \<^item> with at most \<open>dim\<close> index steps followed by the field \<open>length\<close> (the name that
    \<open>loc_str\<close> finds for it in the string table) and then a further access \<open>nxt\<close>, a
    node other than the dummy node and than \<open>node\<close>, it prints the line of \<open>TYPE_MIS\<close>
    for \<open>nm\<close> and returns;
  \<^item> with at most \<open>dim\<close> index steps followed by the field \<open>length\<close> and nothing
    more, it returns and prints nothing; with no index step at all (the only access is
    \<open>length\<close>) the state returned is the one in which the name is bound.

  If the analysis of an index expression does not return, the run ends as that analysis
  does: each part is an equation between the run and the analysis followed by the report.
\<close>

theorem MkST_int_array_access:
  assumes use: "use_of s node v ch"
      and bound: "LookUp_scan (stack s) v (stack_top s) = Some i" "st_ptr (stack s i) = sy"
                 "stack_top s < STACK_SIZE"
      and arr: "int_array s sy nm dim"
      and below: "\<forall>p. brk s \<le> p \<longrightarrow> heap s p = None"
      and dummy: "heap s NullExp = Some dummy_node"
      and closed: "closed_under_children W s" and nW: "node \<notin> W"
      and chain: "index_chain (heap s) ch xs q"
      and prs: "list_all (\<lambda>(S, I, e). S \<notin> W \<and> I \<notin> W \<and> (e \<in> W \<or> e = NullExp)) xs"
      and fuel: "length xs < n"
  shows "(int (length xs) = dim \<and> index_at (heap s) q I \<and> q \<notin> W \<and> I \<notin> W \<longrightarrow>
           MkST (Suc n) node s =
             bnd (analyse_each (MkST n) (map (\<lambda>(S, I, e). e) xs))
               (\<lambda>_. error_msg INDX_MIS CONTINUE nm 0) (bound_use node i s))
       \<and> (xs \<noteq> [] \<and> int (length xs) < dim \<and> q = NullExp \<longrightarrow>
           MkST (Suc n) node s =
             bnd (analyse_each (MkST n) (map (\<lambda>(S, I, e). e) xs))
               (\<lambda>_. error_msg INDX_MIS CONTINUE nm 0) (bound_use node i s))
       \<and> (int (length xs) \<le> dim
            \<and> field_access (heap s) q F lf (loc_str_from 0 (strg_tbl s) ''length'') nxt
            \<and> q \<notin> W \<and> F \<notin> W \<and> lf \<notin> W \<and> nxt \<notin> W \<and> nxt \<noteq> node \<and> heap s nxt \<noteq> None
            \<and> \<not> null_tree s nxt \<longrightarrow>
           MkST (Suc n) node s =
             bnd (analyse_each (MkST n) (map (\<lambda>(S, I, e). e) xs))
               (\<lambda>_. error_msg TYPE_MIS CONTINUE nm 0) (bound_use node i s))
       \<and> (int (length xs) \<le> dim
            \<and> field_access (heap s) q F lf (loc_str_from 0 (strg_tbl s) ''length'') NullExp
            \<and> q \<notin> W \<and> F \<notin> W \<and> lf \<notin> W \<longrightarrow>
           MkST (Suc n) node s =
             bnd (analyse_each (MkST n) (map (\<lambda>(S, I, e). e) xs))
               (\<lambda>_. ret ()) (bound_use node i s))"
proof -
  let ?t = "bound_use node i s"
  let ?b = "brk s + 1"
  let ?h = "heap ?t"
  let ?es = "map (\<lambda>(S, I, e). e) xs"
  from use obtain nd where nd: "heap s node = Some nd" "NodeKind_f nd = EXPRNode"
    "NodeOpType nd = VarOp"
    by (auto simp: use_of_def split: option.splits)
  from below have free: "heap s (brk s) = None" by simp
  from arr have sy: "sy \<noteq> 0" by (simp add: int_array_def)
  from fuel obtain f0 where n: "n = Suc f0" by (cases n) auto
  have lt: "p < brk s" if "heap s p \<noteq> None" for p
    using that below by (metis not_le)
  have same: "heap ?t p = Some x"
    if "heap s p = Some x" "NodeKind_f x \<noteq> EXPRNode \<or> NodeOpType x \<noteq> VarOp" for p x
    using that nd free by (intro bound_use_other [where nd = nd]) auto
  have run: "MkST (Suc n) node s
             = varop_loop (MkST n) n (Suc f0) (case heap s node of Some nd \<Rightarrow> LeftC nd | None \<Rightarrow> 0) 0
                 \<lparr>v_st_ind0 = sy, v_rchild = ch, v_found = None\<rparr> ?t"
    using varop_prefix [OF use bound(1,2) sy bound(3) free, of "MkST n" n 0] MkST_use [OF use, of n]
    by (simp del: MkST.simps varop_loop.simps add: n [symmetric])
  have fr: "framed W ?b ?h ?t" by (rule bound_use_framed [OF nd(1,2) below dummy closed nW])
  have na: "named (strg_tbl s) sy (st s sy) nm ?t" by (rule bound_use_named [OF arr])
  obtain ty tyl where g:
    "GetAttr sy KIND_ATTR ?t = Return ARR ?t"
    "GetAttr sy TYPE_ATTR ?t = Return ty ?t"
    "LeftChild ty ?t = Return tyl ?t"
    "NodeKind tyl ?t = Return INTEGERTNode ?t"
    "GetAttr sy DIMEN_ATTR ?t = Return dim ?t"
    using array_use_facts [OF arr nd free, of i] by metis
  have mk: "keeps (kept W ?b ?h (strg_tbl s) sy (st s sy) nm) (MkST n e) (\<lambda>_. True)"
    if "ok_ptr W ?b e" for e
    using that by (rule MkST_keeps)
  have chain': "index_chain ?h ch xs q"
    using chain by (rule index_chain_transfer) (auto intro!: same)
  have prs': "\<forall>(S, I, e)\<in>set xs. S \<notin> W \<and> S < ?b \<and> I \<notin> W \<and> I < ?b \<and> ok_ptr W ?b e"
  proof -
    have "S \<notin> W \<and> S < ?b \<and> I \<notin> W \<and> I < ?b \<and> ok_ptr W ?b e" if x: "(S, I, e) \<in> set xs" for S I e
    proof -
      from prs x have a: "S \<notin> W" "I \<notin> W" "e \<in> W \<or> e = NullExp"
        by (auto simp: list_all_iff)
      from index_chain_nodes [OF chain] x have "heap s S \<noteq> None" "heap s I \<noteq> None" by auto
      with lt have "S < brk s" "I < brk s" by simp_all
      with a show ?thesis by (auto simp: ok_ptr_def)
    qed
    then show ?thesis by auto
  qed
  have dn: "?h NullExp = Some dummy_node" "NodeKind_f dummy_node = DUMMYNode"
    using same [OF dummy] by (simp_all add: dummy_node_def)
  show ?thesis
  proof (intro conjI impI)
    assume a: "int (length xs) = dim \<and> index_at (heap s) q I \<and> q \<notin> W \<and> I \<notin> W"
    then obtain qn qi where q: "heap s q = Some qn" "NodeKind_f qn = EXPRNode"
      "NodeOpType qn = SelectOp" "LeftC qn = I"
      and qi: "heap s I = Some qi" "NodeKind_f qi = EXPRNode" "NodeOpType qi = IndexOp"
      by (auto simp: index_at_def split: option.splits)
    have q': "q \<notin> W" "q < ?b" "?h q = Some qn" "NodeKind_f qn = EXPRNode"
      using a q lt [of q] same [OF q(1)] by simp_all
    have qi': "LeftC qn \<notin> W" "LeftC qn < ?b" "?h (LeftC qn) = Some qi" "NodeKind_f qi = EXPRNode"
      "NodeOpType qi \<noteq> FieldOp"
      using a q(4) qi lt [of I] same [OF qi(1)] by simp_all
    from a have len: "int (length xs) = dim" by simp
    show "MkST (Suc n) node s =
             bnd (analyse_each (MkST n) ?es) (\<lambda>_. error_msg INDX_MIS CONTINUE nm 0) ?t"
      unfolding run
      by (rule array_too_many_indices [OF mk fr na g chain' prs' q' qi' len fuel])
  next
    assume a: "xs \<noteq> [] \<and> int (length xs) < dim \<and> q = NullExp"
    then have len: "xs \<noteq> []" "int (length xs) < dim" and q: "q = NullExp" by simp_all
    show "MkST (Suc n) node s =
             bnd (analyse_each (MkST n) ?es) (\<lambda>_. error_msg INDX_MIS CONTINUE nm 0) ?t"
      unfolding run
      by (rule array_too_few_indices [OF mk fr na g chain' [unfolded q] prs' dn len fuel])
  next
    assume a: "int (length xs) \<le> dim
            \<and> field_access (heap s) q F lf (loc_str_from 0 (strg_tbl s) ''length'') nxt
            \<and> q \<notin> W \<and> F \<notin> W \<and> lf \<notin> W \<and> nxt \<notin> W \<and> nxt \<noteq> node \<and> heap s nxt \<noteq> None
            \<and> \<not> null_tree s nxt"
    then obtain xn where xn: "heap s nxt = Some xn" "NodeKind_f xn \<noteq> DUMMYNode"
      by (auto simp: null_tree_def split: option.splits)
    from a have fa: "field_access (heap s) q F lf (loc_str_from 0 (strg_tbl s) ''length'') nxt"
      and len: "int (length xs) \<le> dim" and w: "q \<notin> W" "F \<notin> W" "lf \<notin> W" "nxt \<notin> W"
      and nn: "nxt \<noteq> node"
      by simp_all
    from fa obtain qn fn ln where
      qn: "heap s q = Some qn" "NodeKind_f qn = EXPRNode" "NodeOpType qn = SelectOp"
          "LeftC qn = F" "RightC qn = nxt"
      and fn: "heap s F = Some fn" "NodeKind_f fn = EXPRNode" "NodeOpType fn = FieldOp" "LeftC fn = lf"
      and ln: "heap s lf = Some ln" "NodeKind_f ln \<noteq> EXPRNode"
              "IntVal_f ln = loc_str_from 0 (strg_tbl s) ''length''"
      by (auto simp: field_access_def split: option.splits)
    have hx: "?h nxt = Some xn"
      using xn(1) nn lt [of nxt] by (simp add: bound_use_heap)
    have fa': "field_access ?h q F lf (loc_str_from 0 (strg_tbl s) ''length'') nxt"
      using qn fn ln same [OF qn(1)] same [OF fn(1)] same [OF ln(1)]
      by (simp add: field_access_def)
    have fw: "q \<notin> W" "q < ?b" "F \<notin> W" "F < ?b" "lf \<notin> W" "lf < ?b" "nxt \<notin> W" "nxt < ?b"
      using w lt [of q] lt [of F] lt [of lf] lt [of nxt] qn fn ln xn by simp_all
    show "MkST (Suc n) node s =
             bnd (analyse_each (MkST n) ?es) (\<lambda>_. error_msg TYPE_MIS CONTINUE nm 0) ?t"
      unfolding run
      using array_length_access [OF mk fr na g chain' prs' fa' fw hx dn len fuel] xn(2)
      by simp
  next
    assume a: "int (length xs) \<le> dim
            \<and> field_access (heap s) q F lf (loc_str_from 0 (strg_tbl s) ''length'') NullExp
            \<and> q \<notin> W \<and> F \<notin> W \<and> lf \<notin> W"
    from a have fa: "field_access (heap s) q F lf (loc_str_from 0 (strg_tbl s) ''length'') NullExp"
      and len: "int (length xs) \<le> dim" and w: "q \<notin> W" "F \<notin> W" "lf \<notin> W"
      by simp_all
    from fa obtain qn fn ln where
      qn: "heap s q = Some qn" "NodeKind_f qn = EXPRNode" "NodeOpType qn = SelectOp"
          "LeftC qn = F" "RightC qn = NullExp"
      and fn: "heap s F = Some fn" "NodeKind_f fn = EXPRNode" "NodeOpType fn = FieldOp" "LeftC fn = lf"
      and ln: "heap s lf = Some ln" "NodeKind_f ln \<noteq> EXPRNode"
              "IntVal_f ln = loc_str_from 0 (strg_tbl s) ''length''"
      by (auto simp: field_access_def split: option.splits)
    have fa': "field_access ?h q F lf (loc_str_from 0 (strg_tbl s) ''length'') NullExp"
      using qn fn ln same [OF qn(1)] same [OF fn(1)] same [OF ln(1)]
      by (simp add: field_access_def)
    from fr have nw: "NullExp \<notin> W" "NullExp < ?b" by (simp_all add: framed_def)
    have fw: "q \<notin> W" "q < ?b" "F \<notin> W" "F < ?b" "lf \<notin> W" "lf < ?b" "NullExp \<notin> W" "NullExp < ?b"
      using w nw lt [of q] lt [of F] lt [of lf] qn fn ln by simp_all
    show "MkST (Suc n) node s = bnd (analyse_each (MkST n) ?es) (\<lambda>_. ret ()) ?t"
      unfolding run
      using array_length_access [OF mk fr na g chain' prs' fa' fw dn(1) dn len fuel] dn(2)
      by simp
  qed
qed

lemma array_state_reached:
  "bnd OpenBlock (\<lambda>_.
   bnd (InsertEntry 0) (\<lambda>a.
   bnd (SetAttr a TYPE_ATTR 2) (\<lambda>_.
   bnd (SetAttr a DIMEN_ATTR 2) (\<lambda>_.
   bnd (SetAttr a KIND_ATTR ARR) (\<lambda>_.
   bnd (InsertEntry 4) (\<lambda>x.
   bnd (SetAttr x TYPE_ATTR 6) (\<lambda>_.
   SetAttr x KIND_ATTR VAR)))))))
     (init_state [''arr'', ''i'', ''length'', ''x''])
   = Return () (array_state\<lparr>heap := heap (init_state []), brk := brk (init_state [])\<rparr>)"
  by (simp add: symtab_eval init_state_def array_state_def Let_def fun_upd_twist)

lemma array_state_facts:
  "LookUp_scan (stack array_state) 0 (stack_top array_state) = Some 2"
  "st_ptr (stack array_state 2) = 1" "stack_top array_state < STACK_SIZE"
  "int_array array_state 1 0 2"
  "\<forall>p. brk array_state \<le> p \<longrightarrow> heap array_state p = None"
  "heap array_state NullExp = Some dummy_node"
  "closed_under_children {7, 8, 9} array_state"
  "loc_str_from 0 (strg_tbl array_state) ''length'' = 6"
proof -
  show "LookUp_scan (stack array_state) 0 (stack_top array_state) = Some 2"
    by (simp add: LookUp_scan.simps array_state_def)
  show "st_ptr (stack array_state 2) = 1" "stack_top array_state < STACK_SIZE"
    "heap array_state NullExp = Some dummy_node"
    "loc_str_from 0 (strg_tbl array_state) ''length'' = 6"
    by (simp_all add: array_state_def)
  show "int_array array_state 1 0 2"
    by (simp add: int_array_def symtab_eval array_state_def)
  show "\<forall>p. brk array_state \<le> p \<longrightarrow> heap array_state p = None"
    by (simp add: array_state_def)
  show "closed_under_children {7, 8, 9} array_state"
    by (simp add: closed_under_children_def array_state_def)
qed

theorem MkST_int_array_access_witness:
  "int_array array_state 1 0 2
   \<and> use_of array_state 10 0 12
   \<and> index_chain (heap array_state) 12 [(12, 13, 7), (14, 15, 9)] 16
   \<and> index_at (heap array_state) 16 17
   \<and> returned (MkST 4 10 array_state)
   \<and> printed (MkST 4 10 array_state) = [Semantic_Error INDX_MIS 0 0]
   \<and> use_of array_state 18 0 16
   \<and> index_chain (heap array_state) 16 [(16, 17, 9)] NullExp
   \<and> returned (MkST 4 18 array_state)
   \<and> printed (MkST 4 18 array_state) = [Semantic_Error INDX_MIS 0 0]
   \<and> use_of array_state 20 0 22
   \<and> field_access (heap array_state) 22 23 24 6 25
   \<and> returned (MkST 4 20 array_state)
   \<and> printed (MkST 4 20 array_state) = [Semantic_Error TYPE_MIS 0 0]
   \<and> use_of array_state 28 0 30
   \<and> field_access (heap array_state) 30 31 24 6 NullExp
   \<and> MkST 4 28 array_state = Return () (bound_use 28 2 array_state)
   \<and> out (bound_use 28 2 array_state) = []"
proof -
  note f = array_state_facts
  have u: "use_of array_state 10 0 12" "use_of array_state 18 0 16" "use_of array_state 20 0 22"
    "use_of array_state 28 0 30"
    by (simp_all add: use_of_def array_state_def)
  have c: "index_chain (heap array_state) 12 [(12, 13, 7), (14, 15, 9)] 16"
    "index_chain (heap array_state) 16 [(16, 17, 9)] NullExp"
    "index_chain (heap array_state) 22 [] 22" "index_chain (heap array_state) 30 [] 30"
    by (simp_all add: array_state_def)
  have p: "list_all (\<lambda>(S, I, e). S \<notin> {7, 8, 9 :: int} \<and> I \<notin> {7, 8, 9 :: int} \<and> (e \<in> {7, 8, 9 :: int} \<or> e = NullExp))
             [(12, 13, 7), (14, 15, 9)]"
    "list_all (\<lambda>(S, I, e). S \<notin> {7, 8, 9 :: int} \<and> I \<notin> {7, 8, 9 :: int} \<and> (e \<in> {7, 8, 9 :: int} \<or> e = NullExp))
             [(16, 17, 9)]"
    "list_all (\<lambda>(S, I, e). S \<notin> {7, 8, 9 :: int} \<and> I \<notin> {7, 8, 9 :: int} \<and> (e \<in> {7, 8, 9 :: int} \<or> e = NullExp)) []"
    by simp_all
  have ia: "index_at (heap array_state) 16 17"
    by (simp add: index_at_def array_state_def)
  have fa: "field_access (heap array_state) 22 23 24 6 25"
    "field_access (heap array_state) 30 31 24 6 NullExp"
    by (simp_all add: field_access_def array_state_def)
  have nx: "heap array_state 25 \<noteq> None" "\<not> null_tree array_state 25"
    by (simp_all add: null_tree_def array_state_def)
  note t = MkST_int_array_access [where s = array_state and i = 2 and sy = 1 and nm = 0 and dim = 2
      and W = "{7, 8, 9}" and n = 3, OF _ f(1-7)]
  from t [where node = 10 and xs = "[(12, 13, 7), (14, 15, 9)]" and q = 16 and I = 17,
          OF u(1) _ c(1) p(1), THEN conjunct1] ia
  have r1: "MkST 4 10 array_state
            = bnd (analyse_each (MkST 3) (map (\<lambda>(S, I, e). e) [(12 :: int, 13 :: int, 7), (14, 15, 9)]))
                (\<lambda>_. error_msg INDX_MIS CONTINUE 0 0) (bound_use 10 2 array_state)"
    by (simp del: MkST.simps)
  from t [where node = 18 and xs = "[(16, 17, 9)]" and q = NullExp,
          OF u(2) _ c(2) p(2), THEN conjunct2, THEN conjunct1]
  have r2: "MkST 4 18 array_state
            = bnd (analyse_each (MkST 3) (map (\<lambda>(S, I, e). e) [(16 :: int, 17 :: int, 9)]))
                (\<lambda>_. error_msg INDX_MIS CONTINUE 0 0) (bound_use 18 2 array_state)"
    by (simp del: MkST.simps)
  from t [where node = 20 and xs = "[]" and q = 22 and F = 23 and lf = 24 and nxt = 25,
          OF u(3) _ c(3) p(3), THEN conjunct2, THEN conjunct2, THEN conjunct1] fa(1) nx f(8)
  have r3: "MkST 4 20 array_state
            = bnd (analyse_each (MkST 3) (map (\<lambda>(S :: int, I :: int, e). e) []))
                (\<lambda>_. error_msg TYPE_MIS CONTINUE 0 0) (bound_use 20 2 array_state)"
    by (simp del: MkST.simps)
  from t [where node = 28 and xs = "[]" and q = 30 and F = 31 and lf = 24,
          OF u(4) _ c(4) p(3), THEN conjunct2, THEN conjunct2, THEN conjunct2] fa(2) f(8)
  have r4: "MkST 4 28 array_state
            = bnd (analyse_each (MkST 3) (map (\<lambda>(S :: int, I :: int, e). e) []))
                (\<lambda>_. ret ()) (bound_use 28 2 array_state)"
    by (simp del: MkST.simps)
  have e1: "returned (MkST 4 10 array_state)"
    "printed (MkST 4 10 array_state) = [Semantic_Error INDX_MIS 0 0]"
    unfolding r1
    by (simp_all add: symtab_eval tree_eval analyzer_eval array_state_def bound_use_def
          dummy_node_def Let_def eval_nat_numeral error_msg_def ret_def printed_def returned_def)
  have e2: "returned (MkST 4 18 array_state)"
    "printed (MkST 4 18 array_state) = [Semantic_Error INDX_MIS 0 0]"
    unfolding r2
    by (simp_all add: symtab_eval tree_eval analyzer_eval array_state_def bound_use_def
          dummy_node_def Let_def eval_nat_numeral error_msg_def ret_def printed_def returned_def)
  have o: "out array_state = []" by (simp add: array_state_def)
  have e3: "returned (MkST 4 20 array_state)"
    "printed (MkST 4 20 array_state) = [Semantic_Error TYPE_MIS 0 0]"
    unfolding r3
    by (simp_all add: bnd_def error_msg_def ret_def printed_def returned_def o)
  have e4: "MkST 4 28 array_state = Return () (bound_use 28 2 array_state)"
    unfolding r4 by (simp add: bnd_def ret_def)
  from f(4) u c ia fa e1 e2 e3 e4 o show ?thesis by (simp del: MkST.simps)
qed

end
